theory Spec2Isabelle
  imports Main
begin

section \<open>Data model of pywrparser's network\<close>

text \<open>
  Values held in a node's attribute dictionary: the JSON values of the parsed document
  (strings, numbers, booleans, null, lists, dicts) and the objects that attach operations
  put there (\<open>PywrParameter\<close>, \<open>PywrRecorder\<close>). A Python dict is an association list in
  insertion order; its keys are distinct. Numbers are integers here: the code under study
  only tests them for truth. Strings are ASCII.

  \<open>PywrParameter\<close> is the class of \<^verbatim>\<open>types/parameter.py\<close>: a name and the data it was
  built from.
\<close>

datatype pyval =
    PStr string
  | PNum int
  | PBool bool
  | PNone
  | PList "pyval list"
  | PDict "(string \<times> pyval) list"
  | PParam parameter
  | PRecorder recorder
and parameter = PywrParameter (param_name: string) (param_data: pyval)
and recorder = PywrRecorder (recorder_name: string) (recorder_data: pyval)

text \<open>
  Modelled from the spec: the class \<open>PywrNode\<close> is not among the sources. A node has a
  unique name and a mapping \<open>data\<close> from attribute name to value; \<open>attrs\<close> are the
  attribute names that are set, as \<open>PywrParameter.attrs\<close> is \<open>tuple(self.data.keys())\<close>.
\<close>

record node =
  name :: string
  data :: "(string \<times> pyval) list"

definition attrs :: "node \<Rightarrow> string list" where
  "attrs n = map fst (data n)"

text \<open>
  The network of \<^verbatim>\<open>types/network.py\<close>. Metadata, the timestepper, scenarios and tables
  are opaque to the resolver and kept as values.

  Modelled from the spec: the class \<open>PywrEdge\<close> is not among the sources. An edge is an
  ordered tuple of node names and has no identity beyond that tuple.
\<close>

record network =
  metadata :: pyval
  timestepper :: pyval
  scenarios :: "pyval list"
  tables :: "(string \<times> pyval) list"
  nodes :: "(string \<times> node) list"
  edges :: "string list list"
  parameters :: "(string \<times> parameter) list"
  recorders :: "(string \<times> recorder) list"

datatype error = ValueError string | AttributeError string

section \<open>Python primitives used by the code\<close>

text \<open>\<open>str.lower()\<close> on ASCII text: the letters \<open>A\<close> to \<open>Z\<close> become \<open>a\<close> to \<open>z\<close>.\<close>

definition lower_char :: "char \<Rightarrow> char" where
  "lower_char c =
     (case map_of (zip ''ABCDEFGHIJKLMNOPQRSTUVWXYZ'' ''abcdefghijklmnopqrstuvwxyz'') c of
        None \<Rightarrow> c
      | Some l \<Rightarrow> l)"

definition lower :: "string \<Rightarrow> string" where
  "lower s = map lower_char s"

text \<open>\<open>sub in s\<close> on strings: \<open>sub\<close> occurs in \<open>s\<close> as a contiguous run.\<close>

fun str_in :: "string \<Rightarrow> string \<Rightarrow> bool" where
  "str_in sub [] = (sub = [])"
| "str_in sub (c # cs) = (take (length sub) (c # cs) = sub \<or> str_in sub cs)"

text \<open>Truth value of a Python object: \<open>not v\<close> is \<open>\<not> truthy v\<close>.\<close>

fun truthy :: "pyval \<Rightarrow> bool" where
  "truthy (PStr s) = (s \<noteq> [])"
| "truthy (PNum i) = (i \<noteq> 0)"
| "truthy (PBool b) = b"
| "truthy PNone = False"
| "truthy (PList xs) = (xs \<noteq> [])"
| "truthy (PDict kvs) = (kvs \<noteq> [])"
| "truthy (PParam p) = True"
| "truthy (PRecorder r) = True"

text \<open>
  Dict operations on the registry: \<open>d.get(k)\<close> is \<open>map_of d k\<close>, \<open>k in d\<close> is membership in
  the keys, \<open>del d[k]\<close> removes the entry, and \<open>d[k] = v\<close> replaces the value of a key
  that is present, in place, and appends the entry of a key that is not (insertion order).
\<close>

definition dict_del :: "'k \<Rightarrow> ('k \<times> 'v) list \<Rightarrow> ('k \<times> 'v) list" where
  "dict_del k d = filter (\<lambda>kv. fst kv \<noteq> k) d"

fun dict_set :: "'k \<Rightarrow> 'v \<Rightarrow> ('k \<times> 'v) list \<Rightarrow> ('k \<times> 'v) list" where
  "dict_set k v [] = [(k, v)]"
| "dict_set k v ((k', v') # d) =
     (if k' = k then (k, v) # d else (k', v') # dict_set k v d)"

text \<open>
  Modelled from the spec: \<open>canonical_name\<close> of \<^verbatim>\<open>pywrparser.utils\<close> is not among the
  sources. The reference-key format is \<open>"__<nodename>__:<attrname>"\<close>.
\<close>

definition canonical_name :: "string \<Rightarrow> string \<Rightarrow> string" where
  "canonical_name nodename attr = ''__'' @ nodename @ ''__:'' @ attr"

section \<open>attach_parameters\<close>

definition exclude :: "string list" where
  "exclude = [''name'', ''type'']"

text \<open>
  The body of the inner loop of \<open>attach_parameters\<close> for one item \<open>(attr, value)\<close> of
  \<open>node.data\<close>: it returns the registry and the value that \<open>node.data[attr]\<close> holds
  afterwards, or the exception raised. The values of the registry are parameter objects,
  which are true, so \<open>not param\<close> holds exactly when \<open>get\<close> finds no entry.
  \<open>type_key.lower()\<close> exists on strings only. An exception abandons the operation: the
  result is the exception, and what was changed before it is not returned.
\<close>

definition attach_value ::
  "(string \<times> parameter) list \<Rightarrow> string \<Rightarrow> string \<Rightarrow> pyval
     \<Rightarrow> error + ((string \<times> parameter) list \<times> pyval)" where
  "attach_value params node_name attr value =
     (if lower attr \<in> set exclude then Inr (params, value)
      else case value of
        PStr s \<Rightarrow>
          (case map_of params s of
             None \<Rightarrow> Inr (params, value)
           | Some param \<Rightarrow> Inr (dict_del s params, PParam param))
      | PDict d \<Rightarrow>
          (case map_of d ''type'' of
             None \<Rightarrow> Inr (params, value)
           | Some type_key \<Rightarrow>
               if \<not> truthy type_key then Inr (params, value)
               else (case type_key of
                  PStr t \<Rightarrow>
                    if str_in ''recorder'' (lower t) then Inr (params, value)
                    else
                      let param_name = canonical_name node_name attr in
                      if param_name \<in> fst ` set params
                      then Inl (ValueError ''inline dups global param'')
                      else Inr (params, PParam (PywrParameter param_name value))
                | _ \<Rightarrow> Inl (AttributeError ''lower'')))
      | _ \<Rightarrow> Inr (params, value))"

text \<open>
  \<open>for attr, value in node.data.items()\<close>: the items are visited in order; assigning
  \<open>node.data[attr]\<close> for the key being visited replaces the value of that item in place.
\<close>

fun attach_items ::
  "(string \<times> parameter) list \<Rightarrow> string \<Rightarrow> (string \<times> pyval) list
     \<Rightarrow> error + ((string \<times> parameter) list \<times> (string \<times> pyval) list)" where
  "attach_items params node_name [] = Inr (params, [])"
| "attach_items params node_name ((attr, value) # rest) =
     (case attach_value params node_name attr value of
        Inl e \<Rightarrow> Inl e
      | Inr (params1, value1) \<Rightarrow>
          (case attach_items params1 node_name rest of
             Inl e \<Rightarrow> Inl e
           | Inr (params2, rest1) \<Rightarrow> Inr (params2, (attr, value1) # rest1)))"

text \<open>\<open>for node in self.nodes.values()\<close>.\<close>

fun attach_nodes ::
  "(string \<times> parameter) list \<Rightarrow> (string \<times> node) list
     \<Rightarrow> error + ((string \<times> parameter) list \<times> (string \<times> node) list)" where
  "attach_nodes params [] = Inr (params, [])"
| "attach_nodes params ((key, nd) # rest) =
     (case attach_items params (name nd) (data nd) of
        Inl e \<Rightarrow> Inl e
      | Inr (params1, data1) \<Rightarrow>
          (case attach_nodes params1 rest of
             Inl e \<Rightarrow> Inl e
           | Inr (params2, rest1) \<Rightarrow> Inr (params2, (key, nd\<lparr>data := data1\<rparr>) # rest1)))"

definition attach_parameters :: "network \<Rightarrow> error + network" where
  "attach_parameters net =
     (case attach_nodes (parameters net) (nodes net) of
        Inl e \<Rightarrow> Inl e
      | Inr (params1, nodes1) \<Rightarrow> Inr (net\<lparr>nodes := nodes1, parameters := params1\<rparr>))"

section \<open>detach_parameters\<close>

text \<open>
  The body of the inner loop of \<open>detach_parameters\<close>: \<open>isinstance(value, PywrParameter)\<close>
  holds for parameter objects only.
\<close>

definition detach_value ::
  "(string \<times> parameter) list \<Rightarrow> pyval \<Rightarrow> error + ((string \<times> parameter) list \<times> pyval)" where
  "detach_value params value =
     (case value of
        PParam p \<Rightarrow>
          if param_name p \<in> fst ` set params
          then Inl (ValueError ''Attr param name duplicates global param name'')
          else Inr (dict_set (param_name p) p params, PStr (param_name p))
      | _ \<Rightarrow> Inr (params, value))"

fun detach_items ::
  "(string \<times> parameter) list \<Rightarrow> (string \<times> pyval) list
     \<Rightarrow> error + ((string \<times> parameter) list \<times> (string \<times> pyval) list)" where
  "detach_items params [] = Inr (params, [])"
| "detach_items params ((attr, value) # rest) =
     (case detach_value params value of
        Inl e \<Rightarrow> Inl e
      | Inr (params1, value1) \<Rightarrow>
          (case detach_items params1 rest of
             Inl e \<Rightarrow> Inl e
           | Inr (params2, rest1) \<Rightarrow> Inr (params2, (attr, value1) # rest1)))"

fun detach_nodes ::
  "(string \<times> parameter) list \<Rightarrow> (string \<times> node) list
     \<Rightarrow> error + ((string \<times> parameter) list \<times> (string \<times> node) list)" where
  "detach_nodes params [] = Inr (params, [])"
| "detach_nodes params ((key, nd) # rest) =
     (case detach_items params (data nd) of
        Inl e \<Rightarrow> Inl e
      | Inr (params1, data1) \<Rightarrow>
          (case detach_nodes params1 rest of
             Inl e \<Rightarrow> Inl e
           | Inr (params2, rest1) \<Rightarrow> Inr (params2, (key, nd\<lparr>data := data1\<rparr>) # rest1)))"

definition detach_parameters :: "network \<Rightarrow> error + network" where
  "detach_parameters net =
     (case detach_nodes (parameters net) (nodes net) of
        Inl e \<Rightarrow> Inl e
      | Inr (params1, nodes1) \<Rightarrow> Inr (net\<lparr>nodes := nodes1, parameters := params1\<rparr>))"

section \<open>add_parameter_references\<close>

text \<open>
  \<open>parse_reference_key\<close> of \<^verbatim>\<open>pywrparser.utils\<close> is not among the sources; the routine
  takes it as the argument \<open>prk\<close>, which returns \<open>None\<close> where the Python raises
  \<open>ValueError\<close>. The body of the loop over the names of the store:
\<close>

definition add_reference ::
  "(string \<Rightarrow> (string \<times> string) option) \<Rightarrow> (string \<times> node) list \<Rightarrow> string
     \<Rightarrow> (string \<times> node) list" where
  "add_reference prk nds comp_name =
     (case prk comp_name of
        None \<Rightarrow> nds
      | Some (node_name, attr) \<Rightarrow>
          (case map_of nds node_name of
             None \<Rightarrow> nds
           | Some nd \<Rightarrow>
               if attr \<in> set (attrs nd) then nds
               else dict_set node_name
                      (nd\<lparr>data := dict_set attr (PStr comp_name) (data nd)\<rparr>) nds))"

definition add_component_references ::
  "(string \<Rightarrow> (string \<times> string) option) \<Rightarrow> string option \<Rightarrow> network \<Rightarrow> network" where
  "add_component_references prk component net =
     (case component of
        None \<Rightarrow> net
      | Some c \<Rightarrow>
          if c = [] then net
          else if c = ''parameter''
          then net\<lparr>nodes := foldl (add_reference prk) (nodes net) (map fst (parameters net))\<rparr>
          else if c = ''recorder''
          then net\<lparr>nodes := foldl (add_reference prk) (nodes net) (map fst (recorders net))\<rparr>
          else net)"

definition add_parameter_references ::
  "(string \<Rightarrow> (string \<times> string) option) \<Rightarrow> network \<Rightarrow> network" where
  "add_parameter_references prk = add_component_references prk (Some ''parameter'')"

definition add_recorder_references ::
  "(string \<Rightarrow> (string \<times> string) option) \<Rightarrow> network \<Rightarrow> network" where
  "add_recorder_references prk = add_component_references prk (Some ''recorder'')"

text \<open>
  Modelled from the spec: a parser of the reference-key format
  \<open>"__<nodename>__:<attrname>"\<close>, used where a concrete \<open>parse_reference_key\<close> is needed.
  The node name ends at the first \<open>"__:"\<close>.
\<close>

fun split_marker :: "string \<Rightarrow> string \<Rightarrow> (string \<times> string) option" where
  "split_marker acc [] = None"
| "split_marker acc (c # cs) =
     (if take 3 (c # cs) = ''__:'' then Some (rev acc, drop 3 (c # cs))
      else split_marker (c # acc) cs)"

definition parse_reference_key :: "string \<Rightarrow> (string \<times> string) option" where
  "parse_reference_key key =
     (if take 2 key = ''__'' then split_marker [] (drop 2 key) else None)"

section \<open>as_dict\<close>

text \<open>
  The \<open>as_dict\<close> methods of the component classes are not among the sources; \<open>as_dict\<close>
  takes them as arguments.
\<close>

record exporters =
  blob_as_dict :: "pyval \<Rightarrow> pyval"
  node_as_dict :: "node \<Rightarrow> pyval"
  edge_as_dict :: "string list \<Rightarrow> pyval"
  parameter_as_dict :: "parameter \<Rightarrow> pyval"
  recorder_as_dict :: "recorder \<Rightarrow> pyval"

definition as_dict :: "exporters \<Rightarrow> network \<Rightarrow> (string \<times> pyval) list" where
  "as_dict ex net =
     (let network0 =
            [(''metadata'', blob_as_dict ex (metadata net)),
             (''timestepper'', blob_as_dict ex (timestepper net)),
             (''nodes'', PList (map (\<lambda>kv. node_as_dict ex (snd kv)) (nodes net))),
             (''edges'', PList (map (edge_as_dict ex) (edges net)))];
          network1 =
            (if length (parameters net) > 0
             then dict_set ''parameters''
                    (PDict (map (\<lambda>kv. (fst kv, parameter_as_dict ex (snd kv))) (parameters net)))
                    network0
             else network0);
          network2 =
            (if length (recorders net) > 0
             then dict_set ''recorders''
                    (PDict (map (\<lambda>kv. (fst kv, recorder_as_dict ex (snd kv))) (recorders net)))
                    network1
             else network1);
          network3 =
            (if length (scenarios net) > 0
             then dict_set ''scenarios'' (PList (map (blob_as_dict ex) (scenarios net))) network2
             else network2);
          network4 =
            (if length (tables net) > 0
             then dict_set ''tables''
                    (PDict (map (\<lambda>kv. (fst kv, blob_as_dict ex (snd kv))) (tables net)))
                    network3
             else network3)
      in network4)"

text \<open>\<open>len\<close> of a list, a dict or a string.\<close>

fun py_len :: "pyval \<Rightarrow> nat option" where
  "py_len (PStr s) = Some (length s)"
| "py_len (PList xs) = Some (length xs)"
| "py_len (PDict kvs) = Some (length kvs)"
| "py_len _ = None"

section \<open>duplicate_edges\<close>

text \<open>The target \<open>(n1, n2)\<close> of the generator unpacks an edge of exactly two names.\<close>

fun unpack_edge :: "string list \<Rightarrow> error + (string \<times> string)" where
  "unpack_edge [n1, n2] = Inr (n1, n2)"
| "unpack_edge [] = Inl (ValueError ''not enough values to unpack'')"
| "unpack_edge [n1] = Inl (ValueError ''not enough values to unpack'')"
| "unpack_edge (n1 # n2 # n3 # ns) = Inl (ValueError ''too many values to unpack'')"

fun unpack_edges :: "string list list \<Rightarrow> error + (string \<times> string) list" where
  "unpack_edges [] = Inr []"
| "unpack_edges (e # es) =
     (case unpack_edge e of
        Inl err \<Rightarrow> Inl err
      | Inr p \<Rightarrow> (case unpack_edges es of Inl err \<Rightarrow> Inl err | Inr ps \<Rightarrow> Inr (p # ps)))"

text \<open>\<open>collections.Counter\<close>: each element is counted under its first position.\<close>

definition counter_add :: "('k \<times> nat) list \<Rightarrow> 'k \<Rightarrow> ('k \<times> nat) list" where
  "counter_add cnt k =
     (case map_of cnt k of None \<Rightarrow> dict_set k 1 cnt | Some c \<Rightarrow> dict_set k (c + 1) cnt)"

definition Counter :: "'k list \<Rightarrow> ('k \<times> nat) list" where
  "Counter xs = foldl counter_add [] xs"

definition duplicate_edges :: "network \<Rightarrow> error + ((string \<times> string) \<times> nat) list" where
  "duplicate_edges net =
     (case unpack_edges (edges net) of
        Inl err \<Rightarrow> Inl err
      | Inr ps \<Rightarrow> Inr (filter (\<lambda>ec. snd ec > 1) (Counter ps)))"

section \<open>Construction entry points\<close>

text \<open>
  The parser front end \<open>PywrJSONParser\<close> and the file system are outside the sources. The
  entry points take them as an environment: opening and reading a file gives its text,
  or raises \<open>OSError\<close> (kept as its text), or raises another exception (a
  \<open>UnicodeDecodeError\<close> of \<open>fp.read()\<close>, say); building a parser and running \<open>parse\<close>
  give a parser or the exception raised. Of a parser the entry points read the error and warning collections and the
  eight components that \<open>PywrNetwork.__init__\<close> copies.
\<close>

datatype exn = PywrParserException string | OtherException string

record parser =
  has_errors :: bool
  errors :: "(string \<times> exn list) list"
  has_warnings :: bool
  warnings :: "exn list"
  parsed :: network

datatype read_outcome = OSError string | ReadRaises exn | Contents string

record env =
  read_file :: "string \<Rightarrow> read_outcome"
  new_parser :: "string \<Rightarrow> string option \<Rightarrow> exn + parser"
  parse :: "parser \<Rightarrow> bool \<Rightarrow> bool \<Rightarrow> bool \<Rightarrow> exn + parser"

type_synonym construction =
  "network option \<times> (string \<times> exn list) list option \<times> exn list option"

definition after_parse ::
  "env \<Rightarrow> parser \<Rightarrow> bool \<Rightarrow> bool \<Rightarrow> bool \<Rightarrow> exn + construction" where
  "after_parse ev p0 raise_on_parser_error raise_on_parser_warning allow_duplicate_edges =
     (case parse ev p0 raise_on_parser_error raise_on_parser_warning allow_duplicate_edges of
        Inl exc \<Rightarrow> Inl exc
      | Inr p \<Rightarrow>
          let ret_warnings = (if has_warnings p then Some (warnings p) else None) in
          if has_errors p then Inr (None, Some (errors p), ret_warnings)
          else Inr (Some (parsed p), None, Some (warnings p)))"

definition from_file ::
  "env \<Rightarrow> string \<Rightarrow> bool \<Rightarrow> bool \<Rightarrow> bool \<Rightarrow> string option \<Rightarrow> exn + construction" where
  "from_file ev filename raise_on_parser_error raise_on_parser_warning
       allow_duplicate_edges ruleset =
     (case read_file ev filename of
        OSError err \<Rightarrow>
          let exc = PywrParserException (''Unable to read input file: '' @ err) in
          if raise_on_parser_error then Inl exc
          else Inr (None, Some [(''network'', [exc])], None)
      | ReadRaises exc \<Rightarrow> Inl exc
      | Contents json_src \<Rightarrow>
          (case new_parser ev json_src ruleset of
             Inl (PywrParserException m) \<Rightarrow>
               if raise_on_parser_error then Inl (PywrParserException m)
               else Inr (None, Some [(''network'', [PywrParserException m])], None)
           | Inl exc \<Rightarrow> Inl exc
           | Inr p0 \<Rightarrow>
               after_parse ev p0 raise_on_parser_error raise_on_parser_warning
                 allow_duplicate_edges))"

definition from_json ::
  "env \<Rightarrow> string \<Rightarrow> bool \<Rightarrow> bool \<Rightarrow> bool \<Rightarrow> exn + construction" where
  "from_json ev json_src raise_on_parser_error raise_on_parser_warning allow_duplicate_edges =
     (case new_parser ev json_src None of
        Inl exc \<Rightarrow> Inl exc
      | Inr p0 \<Rightarrow>
          after_parse ev p0 raise_on_parser_error raise_on_parser_warning
            allow_duplicate_edges)"

section \<open>Positions in the loops\<close>

text \<open>
  The loops of \<open>attach_parameters\<close> and \<open>detach_parameters\<close> visit the attributes in
  order: attribute \<open>j\<close> of the \<open>i\<close>-th node is position \<open>(i, j)\<close>.
\<close>

definition valid_pos :: "network \<Rightarrow> nat \<Rightarrow> nat \<Rightarrow> bool" where
  "valid_pos net i j \<longleftrightarrow>
     i < length (nodes net) \<and> j < length (data (snd (nodes net ! i)))"

definition attr_at :: "network \<Rightarrow> nat \<Rightarrow> nat \<Rightarrow> string" where
  "attr_at net i j = fst (data (snd (nodes net ! i)) ! j)"

definition value_at :: "network \<Rightarrow> nat \<Rightarrow> nat \<Rightarrow> pyval" where
  "value_at net i j = snd (data (snd (nodes net ! i)) ! j)"

text \<open>
  The registry with which \<open>attach_parameters\<close> arrives at position \<open>(i, j)\<close>, after the
  nodes before \<open>i\<close> and the attributes before \<open>j\<close>; \<open>None\<close> when an exception was raised
  before.
\<close>

definition attach_reaches ::
  "network \<Rightarrow> nat \<Rightarrow> nat \<Rightarrow> (string \<times> parameter) list option" where
  "attach_reaches net i j =
     (case attach_nodes (parameters net) (take i (nodes net)) of
        Inl e \<Rightarrow> None
      | Inr (params1, nodes1) \<Rightarrow>
          (case attach_items params1 (name (snd (nodes net ! i)))
                  (take j (data (snd (nodes net ! i)))) of
             Inl e \<Rightarrow> None
           | Inr (params2, data1) \<Rightarrow> Some params2))"

definition detach_reaches ::
  "network \<Rightarrow> nat \<Rightarrow> nat \<Rightarrow> (string \<times> parameter) list option" where
  "detach_reaches net i j =
     (case detach_nodes (parameters net) (take i (nodes net)) of
        Inl e \<Rightarrow> None
      | Inr (params1, nodes1) \<Rightarrow>
          (case detach_items params1 (take j (data (snd (nodes net ! i)))) of
             Inl e \<Rightarrow> None
           | Inr (params2, data1) \<Rightarrow> Some params2))"

text \<open>Position \<open>(i, j)\<close> is visited before position \<open>(i', j')\<close>.\<close>

definition pos_before :: "nat \<Rightarrow> nat \<Rightarrow> nat \<Rightarrow> nat \<Rightarrow> bool" where
  "pos_before i j i' j' \<longleftrightarrow> i < i' \<or> (i = i' \<and> j < j')"

text \<open>
  The strings that the loop of \<open>attach_parameters\<close> looks up in the registry: the string
  values of the attributes that are not excluded, in the order of the visit.
\<close>

fun refs_items :: "(string \<times> pyval) list \<Rightarrow> string list" where
  "refs_items [] = []"
| "refs_items ((attr, value) # rest) =
     (if lower attr \<in> set exclude then refs_items rest
      else case value of PStr s \<Rightarrow> s # refs_items rest | _ \<Rightarrow> refs_items rest)"

fun refs_nodes :: "(string \<times> node) list \<Rightarrow> string list" where
  "refs_nodes [] = []"
| "refs_nodes ((key, nd) # rest) = refs_items (data nd) @ refs_nodes rest"

definition prune :: "string list \<Rightarrow> (string \<times> parameter) list \<Rightarrow> (string \<times> parameter) list" where
  "prune seen params = filter (\<lambda>kv. fst kv \<notin> set seen) params"

text \<open>
  The parameter objects held by attributes, as the entries that \<open>detach_parameters\<close>
  adds to the registry, and the value an attribute holds after it.
\<close>

fun held_items :: "(string \<times> pyval) list \<Rightarrow> (string \<times> parameter) list" where
  "held_items [] = []"
| "held_items ((attr, value) # rest) =
     (case value of PParam p \<Rightarrow> (param_name p, p) # held_items rest | _ \<Rightarrow> held_items rest)"

fun held_nodes :: "(string \<times> node) list \<Rightarrow> (string \<times> parameter) list" where
  "held_nodes [] = []"
| "held_nodes ((key, nd) # rest) = held_items (data nd) @ held_nodes rest"

definition detached :: "pyval \<Rightarrow> pyval" where
  "detached value = (case value of PParam p \<Rightarrow> PStr (param_name p) | _ \<Rightarrow> value)"

text \<open>
  An attribute that \<open>attach_parameters\<close> reads as an inline definition: its name is not
  excluded and its value is a dict whose \<open>type\<close> is true and is not a string with
  \<open>recorder\<close> in it.
\<close>

definition inline_definition :: "string \<Rightarrow> pyval \<Rightarrow> bool" where
  "inline_definition attr value \<longleftrightarrow>
     lower attr \<notin> set exclude \<and>
     (case value of
        PDict d \<Rightarrow>
          (case map_of d ''type'' of
             None \<Rightarrow> False
           | Some type_key \<Rightarrow>
               truthy type_key \<and>
               (case type_key of PStr t \<Rightarrow> \<not> str_in ''recorder'' (lower t) | _ \<Rightarrow> True))
      | _ \<Rightarrow> False)"

definition is_param :: "pyval \<Rightarrow> bool" where
  "is_param value = (case value of PParam p \<Rightarrow> True | _ \<Rightarrow> False)"

text \<open>
  A network as the parser builds it: the keys of the registry are distinct and are the
  names of their parameters, and no attribute holds a parameter object yet.
\<close>

definition registry_ok :: "(string \<times> parameter) list \<Rightarrow> bool" where
  "registry_ok params \<longleftrightarrow>
     distinct (map fst params) \<and> list_all (\<lambda>kv. param_name (snd kv) = fst kv) params"

definition no_params_held :: "(string \<times> node) list \<Rightarrow> bool" where
  "no_params_held nds = list_all (\<lambda>kn. list_all (\<lambda>av. \<not> is_param (snd av)) (data (snd kn))) nds"

definition no_inline_definitions :: "(string \<times> node) list \<Rightarrow> bool" where
  "no_inline_definitions nds =
     list_all (\<lambda>kn. list_all (\<lambda>av. \<not> inline_definition (fst av) (snd av)) (data (snd kn))) nds"

definition attach_then_detach :: "network \<Rightarrow> error + network" where
  "attach_then_detach net =
     (case attach_parameters net of Inl e \<Rightarrow> Inl e | Inr net1 \<Rightarrow> detach_parameters net1)"

section \<open>Concrete networks\<close>

text \<open>
  Two nodes that both name the global parameter \<open>flow_max\<close>, with every optional
  collection filled.
\<close>

definition small_network :: network where
  "small_network =
     \<lparr>metadata = PDict [(''title'', PStr ''t'')],
      timestepper = PDict [(''timestep'', PNum 1)],
      scenarios = [PDict [(''name'', PStr ''s1'')]],
      tables = [(''tbl'', PDict [(''url'', PStr ''t.csv'')])],
      nodes =
        [(''A'', \<lparr>name = ''A'',
                  data = [(''name'', PStr ''A''), (''max_flow'', PStr ''flow_max'')]\<rparr>),
         (''B'', \<lparr>name = ''B'',
                  data = [(''Name'', PStr ''flow_max''), (''cost'', PStr ''flow_max'')]\<rparr>)],
      edges = [[''A'', ''B'']],
      parameters =
        [(''flow_max'', PywrParameter ''flow_max'' (PDict [(''type'', PStr ''constant'')]))],
      recorders =
        [(''rec'', PywrRecorder ''rec'' (PDict [(''type'', PStr ''NumpyArrayNodeRecorder'')]))]\<rparr>"

text \<open>\<open>small_network\<close> after \<open>attach_parameters\<close>: the first reference took the parameter.\<close>

definition small_attached :: network where
  "small_attached =
     small_network
       \<lparr>nodes :=
          [(''A'', \<lparr>name = ''A'',
                    data = [(''name'', PStr ''A''),
                            (''max_flow'',
                             PParam (PywrParameter ''flow_max''
                               (PDict [(''type'', PStr ''constant'')])))]\<rparr>),
           (''B'', \<lparr>name = ''B'',
                    data = [(''Name'', PStr ''flow_max''), (''cost'', PStr ''flow_max'')]\<rparr>)],
        parameters := []\<rparr>"

text \<open>An attribute holds the parameter \<open>flow_max\<close> and the registry has that name too.\<close>

definition clashing_network :: network where
  "clashing_network = small_attached\<lparr>parameters := parameters small_network\<rparr>"

text \<open>
  A node with an inline parameter definition, an inline recorder definition, and a dict
  whose \<open>type\<close> is the empty string; no global parameters.
\<close>

definition inline_data :: "(string \<times> pyval) list" where
  "inline_data =
     [(''name'', PStr ''Reservoir1''),
      (''max_flow'',
       PDict [(''type'', PStr ''monthlyprofileparameter''), (''values'', PList [PNum 1, PNum 2])]),
      (''level'', PDict [(''type'', PStr ''NumpyArrayStorageRecorder'')]),
      (''cost'', PDict [(''type'', PStr [])])]"

definition inline_network :: network where
  "inline_network =
     \<lparr>metadata = PDict [],
      timestepper = PDict [],
      scenarios = [],
      tables = [],
      nodes = [(''Reservoir1'', \<lparr>name = ''Reservoir1'', data = inline_data\<rparr>)],
      edges = [],
      parameters = [],
      recorders = []\<rparr>"

definition inline_parameter :: parameter where
  "inline_parameter =
     PywrParameter ''__Reservoir1__:max_flow''
       (PDict [(''type'', PStr ''monthlyprofileparameter''), (''values'', PList [PNum 1, PNum 2])])"

definition inline_attached :: network where
  "inline_attached =
     inline_network
       \<lparr>nodes := [(''Reservoir1'',
           \<lparr>name = ''Reservoir1'',
              data = inline_data [1 := (''max_flow'', PParam inline_parameter)]\<rparr>)]\<rparr>"

definition inline_detached :: network where
  "inline_detached =
     inline_network
       \<lparr>nodes := [(''Reservoir1'',
           \<lparr>name = ''Reservoir1'',
              data = inline_data [1 := (''max_flow'', PStr ''__Reservoir1__:max_flow'')]\<rparr>)],
        parameters := [(''__Reservoir1__:max_flow'', inline_parameter)]\<rparr>"

text \<open>The same node beside a global parameter that has the canonical name of the inline one.\<close>

definition colliding_network :: network where
  "colliding_network =
     inline_network
       \<lparr>parameters :=
          [(''__Reservoir1__:max_flow'',
            PywrParameter ''__Reservoir1__:max_flow'' (PDict [(''type'', PStr ''constant'')]))]\<rparr>"

text \<open>
  The value of attribute \<open>attr\<close> of the node stored under \<open>node_name\<close>; \<open>None\<close> when there
  is no such node or the node has no such attribute.
\<close>

definition node_attr :: "(string \<times> node) list \<Rightarrow> string \<Rightarrow> string \<Rightarrow> pyval option" where
  "node_attr nds node_name attr =
     (case map_of nds node_name of None \<Rightarrow> None | Some nd \<Rightarrow> map_of (data nd) attr)"

text \<open>
  What is asked of a \<open>parse_reference_key\<close>: a key that it accepts is the reference key
  \<open>"__<nodename>__:<attrname>"\<close> of the node name and attribute name it returns.
\<close>

definition parses_reference_keys :: "(string \<Rightarrow> (string \<times> string) option) \<Rightarrow> bool" where
  "parses_reference_keys prk \<longleftrightarrow>
     (\<forall>key node_name attr. prk key = Some (node_name, attr) \<longrightarrow>
        key = canonical_name node_name attr)"

text \<open>
  The node \<open>Reservoir1\<close> without a \<open>max_flow\<close> attribute, beside global parameters named
  by a reference key of that node, by a reference key of a node that does not exist, by
  a reference key of an attribute that is set, and by a plain name.
\<close>

definition reference_network :: network where
  "reference_network =
     \<lparr>metadata = PDict [],
      timestepper = PDict [],
      scenarios = [],
      tables = [],
      nodes = [(''Reservoir1'',
                \<lparr>name = ''Reservoir1'',
                   data = [(''name'', PStr ''Reservoir1''), (''cost'', PNum 3)]\<rparr>)],
      edges = [],
      parameters =
        [(''__Reservoir1__:max_flow'',
          PywrParameter ''__Reservoir1__:max_flow'' (PDict [(''type'', PStr ''constant'')])),
         (''__Nowhere__:max_flow'',
          PywrParameter ''__Nowhere__:max_flow'' (PDict [(''type'', PStr ''constant'')])),
         (''__Reservoir1__:cost'',
          PywrParameter ''__Reservoir1__:cost'' (PDict [(''type'', PStr ''constant'')])),
         (''flow_max'', PywrParameter ''flow_max'' (PDict [(''type'', PStr ''constant'')]))],
      recorders = []\<rparr>"

definition reference_network_linked :: network where
  "reference_network_linked =
     reference_network
       \<lparr>nodes :=
          [(''Reservoir1'',
            \<lparr>name = ''Reservoir1'',
               data = [(''name'', PStr ''Reservoir1''), (''cost'', PNum 3),
                       (''max_flow'', PStr ''__Reservoir1__:max_flow'')]\<rparr>)]\<rparr>"

text \<open>
  A node whose attribute \<open>Name\<close> holds the name of a global parameter, alone and before
  an attribute \<open>max_flow\<close> that holds the same name.
\<close>

definition shadowed_network :: network where
  "shadowed_network =
     \<lparr>metadata = PDict [],
      timestepper = PDict [],
      scenarios = [],
      tables = [],
      nodes = [(''A'', \<lparr>name = ''A'', data = [(''Name'', PStr ''flow_max'')]\<rparr>)],
      edges = [],
      parameters =
        [(''flow_max'', PywrParameter ''flow_max'' (PDict [(''type'', PStr ''constant'')]))],
      recorders = []\<rparr>"

definition capital_name_network :: network where
  "capital_name_network =
     shadowed_network
       \<lparr>nodes :=
          [(''A'', \<lparr>name = ''A'',
                    data = [(''Name'', PStr ''flow_max''),
                            (''max_flow'', PStr ''flow_max'')]\<rparr>)]\<rparr>"

definition capital_name_attached :: network where
  "capital_name_attached =
     shadowed_network
       \<lparr>nodes :=
          [(''A'', \<lparr>name = ''A'',
                    data = [(''Name'', PStr ''flow_max''),
                            (''max_flow'',
                             PParam (PywrParameter ''flow_max''
                               (PDict [(''type'', PStr ''constant'')])))]\<rparr>)],
        parameters := []\<rparr>"

definition plain_exporters :: exporters where
  "plain_exporters =
     \<lparr>blob_as_dict = (\<lambda>v. v),
      node_as_dict = (\<lambda>n. PDict (data n)),
      edge_as_dict = (\<lambda>e. PList (map PStr e)),
      parameter_as_dict = param_data,
      recorder_as_dict = recorder_data\<rparr>"

text \<open>A front end whose parser constructor rejects the document.\<close>

definition rejecting_env :: env where
  "rejecting_env =
     \<lparr>read_file = (\<lambda>f. Contents ''{''),
      new_parser = (\<lambda>src rs. Inl (PywrParserException ''Invalid JSON'')),
      parse = (\<lambda>p a b c. Inr p)\<rparr>"

definition opt_len :: "pyval option \<Rightarrow> nat option" where
  "opt_len v = (case v of None \<Rightarrow> None | Some x \<Rightarrow> py_len x)"

section \<open>Dictionaries\<close>

lemma map_of_dict_set: "map_of (dict_set k v d) k' = (if k' = k then Some v else map_of d k')"
  by (induction d) auto

lemma keys_dict_set: "fst ` set (dict_set k v d) = insert k (fst ` set d)"
proof (induction d)
  case Nil
  show ?case by simp
next
  case (Cons x d)
  obtain k' v' where x: "x = (k', v')" by (cases x)
  show ?case
  proof (cases "k' = k")
    case True
    then show ?thesis using x by simp
  next
    case False
    then show ?thesis using x Cons.IH by (simp add: insert_commute)
  qed
qed

lemma distinct_dict_set: "distinct (map fst d) \<Longrightarrow> distinct (map fst (dict_set k v d))"
  by (induction d) (auto simp: keys_dict_set)

lemma dict_set_fresh: "k \<notin> fst ` set d \<Longrightarrow> dict_set k v d = d @ [(k, v)]"
  by (induction d) auto

section \<open>The loop of attach_parameters\<close>

lemma attach_items_append:
  "attach_items reg nn (xs @ ys) =
     (case attach_items reg nn xs of
        Inl e \<Rightarrow> Inl e
      | Inr (r1, xs') \<Rightarrow>
          (case attach_items r1 nn ys of
             Inl e \<Rightarrow> Inl e
           | Inr (r2, ys') \<Rightarrow> Inr (r2, xs' @ ys')))"
  by (induction xs arbitrary: reg) (auto split: sum.splits prod.splits)

lemma attach_nodes_append:
  "attach_nodes reg (xs @ ys) =
     (case attach_nodes reg xs of
        Inl e \<Rightarrow> Inl e
      | Inr (r1, xs') \<Rightarrow>
          (case attach_nodes r1 ys of
             Inl e \<Rightarrow> Inl e
           | Inr (r2, ys') \<Rightarrow> Inr (r2, xs' @ ys')))"
  by (induction xs arbitrary: reg) (auto split: sum.splits prod.splits)

lemma attach_items_keys:
  "attach_items reg nn xs = Inr (r, xs') \<Longrightarrow> map fst xs' = map fst xs"
  by (induction xs arbitrary: reg r xs') (auto split: sum.splits prod.splits)

lemma attach_items_length:
  "attach_items reg nn xs = Inr (r, xs') \<Longrightarrow> length xs' = length xs"
  by (drule attach_items_keys) (metis length_map)

lemma attach_nodes_length:
  "attach_nodes reg xs = Inr (r, xs') \<Longrightarrow> length xs' = length xs"
  by (induction xs arbitrary: reg r xs') (auto split: sum.splits prod.splits)

lemma prune_Nil: "prune [] reg = reg"
  by (simp add: prune_def)

lemma prune_append: "prune (xs @ ys) reg = prune ys (prune xs reg)"
  by (auto simp: prune_def intro: filter_cong)

lemma prune_Cons: "prune (s # ys) reg = prune ys (dict_del s reg)"
  by (auto simp: prune_def dict_del_def intro: filter_cong)

lemma dict_del_absent: "map_of reg s = None \<Longrightarrow> dict_del s reg = reg"
  by (auto simp: dict_del_def map_of_eq_None_iff filter_id_conv image_iff)

lemma attach_value_reg:
  "attach_value reg nn a v = Inr (r, v') \<Longrightarrow> r = prune (refs_items [(a, v)]) reg"
  by (auto simp: attach_value_def prune_Nil prune_Cons dict_del_absent Let_def
      split: if_splits pyval.splits option.splits)

lemma refs_items_append: "refs_items (xs @ ys) = refs_items xs @ refs_items ys"
  by (induction xs rule: refs_items.induct) (auto split: pyval.splits)

lemma refs_nodes_append: "refs_nodes (xs @ ys) = refs_nodes xs @ refs_nodes ys"
  by (induction xs rule: refs_nodes.induct) auto

lemma attach_items_reg:
  "attach_items reg nn xs = Inr (r, xs') \<Longrightarrow> r = prune (refs_items xs) reg"
proof (induction xs arbitrary: reg r xs')
  case Nil
  then show ?case by (simp add: prune_Nil)
next
  case (Cons x xs)
  obtain a v where x: "x = (a, v)" by (cases x)
  from Cons.prems x obtain r1 v1 rest1 where
    st: "attach_value reg nn a v = Inr (r1, v1)" and
    rs: "attach_items r1 nn xs = Inr (r, rest1)"
    by (auto split: sum.splits prod.splits)
  have "r1 = prune (refs_items [(a, v)]) reg" using st by (rule attach_value_reg)
  moreover have "r = prune (refs_items xs) r1" using rs by (rule Cons.IH)
  moreover have "refs_items (x # xs) = refs_items [(a, v)] @ refs_items xs"
    using refs_items_append [of "[(a, v)]" xs] x by simp
  ultimately show ?case by (simp add: prune_append)
qed

lemma attach_nodes_reg:
  "attach_nodes reg xs = Inr (r, xs') \<Longrightarrow> r = prune (refs_nodes xs) reg"
proof (induction xs arbitrary: reg r xs')
  case Nil
  then show ?case by (simp add: prune_Nil)
next
  case (Cons x xs)
  obtain k nd where x: "x = (k, nd)" by (cases x)
  from Cons.prems x obtain r1 d1 rest1 where
    st: "attach_items reg (name nd) (data nd) = Inr (r1, d1)" and
    rs: "attach_nodes r1 xs = Inr (r, rest1)"
    by (auto split: sum.splits prod.splits)
  have "r1 = prune (refs_items (data nd)) reg" using st by (rule attach_items_reg)
  moreover have "r = prune (refs_nodes xs) r1" using rs by (rule Cons.IH)
  ultimately show ?case using x by (simp add: prune_append)
qed


lemma attach_items_mid:
  "attach_items reg nn (pre @ (a, v) # post) =
     (case attach_items reg nn pre of
        Inl e \<Rightarrow> Inl e
      | Inr (r1, pre') \<Rightarrow>
          (case attach_value r1 nn a v of
             Inl e \<Rightarrow> Inl e
           | Inr (r2, v') \<Rightarrow>
               (case attach_items r2 nn post of
                  Inl e \<Rightarrow> Inl e
                | Inr (r3, post') \<Rightarrow> Inr (r3, pre' @ (a, v') # post'))))"
  by (simp add: attach_items_append split: sum.splits prod.splits)

lemma attach_nodes_mid:
  "attach_nodes reg (pre @ (k, nd) # post) =
     (case attach_nodes reg pre of
        Inl e \<Rightarrow> Inl e
      | Inr (r1, pre') \<Rightarrow>
          (case attach_items r1 (name nd) (data nd) of
             Inl e \<Rightarrow> Inl e
           | Inr (r2, d') \<Rightarrow>
               (case attach_nodes r2 post of
                  Inl e \<Rightarrow> Inl e
                | Inr (r3, post') \<Rightarrow> Inr (r3, pre' @ (k, nd\<lparr>data := d'\<rparr>) # post'))))"
  by (simp add: attach_nodes_append split: sum.splits prod.splits)

lemma attach_items_split:
  assumes "j < length xs"
  shows "attach_items reg nn xs =
     (case attach_items reg nn (take j xs) of
        Inl e \<Rightarrow> Inl e
      | Inr (r1, pre') \<Rightarrow>
          (case attach_value r1 nn (fst (xs ! j)) (snd (xs ! j)) of
             Inl e \<Rightarrow> Inl e
           | Inr (r2, v') \<Rightarrow>
               (case attach_items r2 nn (drop (Suc j) xs) of
                  Inl e \<Rightarrow> Inl e
                | Inr (r3, post') \<Rightarrow> Inr (r3, pre' @ (fst (xs ! j), v') # post'))))"
proof -
  obtain a v where xj: "xs ! j = (a, v)" by (cases "xs ! j")
  have eq: "xs = take j xs @ (a, v) # drop (Suc j) xs"
    using id_take_nth_drop [OF assms] xj by simp
  have "attach_items reg nn xs = attach_items reg nn (take j xs @ (a, v) # drop (Suc j) xs)"
    by (rule arg_cong [where f = "attach_items reg nn", OF eq])
  then show ?thesis by (simp only: attach_items_mid xj fst_conv snd_conv)
qed

lemma attach_nodes_split:
  assumes "i < length ns"
  shows "attach_nodes reg ns =
     (case attach_nodes reg (take i ns) of
        Inl e \<Rightarrow> Inl e
      | Inr (r1, pre') \<Rightarrow>
          (case attach_items r1 (name (snd (ns ! i))) (data (snd (ns ! i))) of
             Inl e \<Rightarrow> Inl e
           | Inr (r2, d') \<Rightarrow>
               (case attach_nodes r2 (drop (Suc i) ns) of
                  Inl e \<Rightarrow> Inl e
                | Inr (r3, post') \<Rightarrow>
                    Inr (r3, pre' @ (fst (ns ! i), (snd (ns ! i))\<lparr>data := d'\<rparr>) # post'))))"
proof -
  obtain k nd where xi: "ns ! i = (k, nd)" by (cases "ns ! i")
  have eq: "ns = take i ns @ (k, nd) # drop (Suc i) ns"
    using id_take_nth_drop [OF assms] xi by simp
  have "attach_nodes reg ns = attach_nodes reg (take i ns @ (k, nd) # drop (Suc i) ns)"
    by (rule arg_cong [where f = "attach_nodes reg", OF eq])
  then show ?thesis by (simp only: attach_nodes_mid xi fst_conv snd_conv)
qed

text \<open>A visit that raises aborts the whole operation.\<close>

lemma attach_at_error:
  assumes pos: "valid_pos net i j"
    and reach: "attach_reaches net i j = Some r"
    and step: "attach_value r (name (snd (nodes net ! i))) (attr_at net i j) (value_at net i j) = Inl e"
  shows "attach_parameters net = Inl e"
proof -
  let ?nd = "snd (nodes net ! i)"
  from pos have i: "i < length (nodes net)" and j: "j < length (data ?nd)"
    by (simp_all add: valid_pos_def)
  from reach obtain r1 pre' pre2 where
    n: "attach_nodes (parameters net) (take i (nodes net)) = Inr (r1, pre')" and
    it: "attach_items r1 (name ?nd) (take j (data ?nd)) = Inr (r, pre2)"
    by (auto simp: attach_reaches_def split: sum.splits prod.splits)
  have "attach_items r1 (name ?nd) (data ?nd) = Inl e"
    using it step by (simp add: attach_items_split [OF j] attr_at_def value_at_def)
  then have "attach_nodes (parameters net) (nodes net) = Inl e"
    using n by (simp add: attach_nodes_split [OF i])
  then show ?thesis by (simp add: attach_parameters_def)
qed

text \<open>A visit that returns hands its registry to the next position.\<close>

lemma attach_at_next:
  assumes pos: "valid_pos net i j"
    and reach: "attach_reaches net i j = Some r"
    and step: "attach_value r (name (snd (nodes net ! i))) (attr_at net i j) (value_at net i j)
                 = Inr (r2, v')"
  shows "attach_reaches net i (Suc j) = Some r2"
proof -
  let ?nd = "snd (nodes net ! i)"
  from pos have i: "i < length (nodes net)" and j: "j < length (data ?nd)"
    by (simp_all add: valid_pos_def)
  from reach obtain r1 pre' pre2 where
    n: "attach_nodes (parameters net) (take i (nodes net)) = Inr (r1, pre')" and
    it: "attach_items r1 (name ?nd) (take j (data ?nd)) = Inr (r, pre2)"
    by (auto simp: attach_reaches_def split: sum.splits prod.splits)
  obtain a v where xj: "data ?nd ! j = (a, v)" by (cases "data ?nd ! j")
  have tk: "take (Suc j) (data ?nd) = take j (data ?nd) @ [(a, v)]"
    using take_Suc_conv_app_nth [OF j] xj by simp
  have st: "attach_value r (name ?nd) a v = Inr (r2, v')"
    using step xj by (simp add: attr_at_def value_at_def)
  have "attach_items r1 (name ?nd) (take (Suc j) (data ?nd)) = Inr (r2, pre2 @ [(a, v')])"
    using it st by (simp add: tk attach_items_append)
  then show ?thesis using n by (simp add: attach_reaches_def)
qed

text \<open>When the operation returns, every position was reached and holds what its visit left.\<close>

lemma attach_at_result:
  assumes pos: "valid_pos net i j"
    and ok: "attach_parameters net = Inr net'"
  shows "\<exists>r r2. attach_reaches net i j = Some r \<and>
           attach_value r (name (snd (nodes net ! i))) (attr_at net i j) (value_at net i j)
             = Inr (r2, value_at net' i j) \<and>
           attr_at net' i j = attr_at net i j \<and>
           set (parameters net') \<subseteq> set r2"
proof -
  let ?nd = "snd (nodes net ! i)"
  from pos have i: "i < length (nodes net)" and j: "j < length (data ?nd)"
    by (simp_all add: valid_pos_def)
  from ok obtain rf ns' where
    run: "attach_nodes (parameters net) (nodes net) = Inr (rf, ns')" and
    net': "net' = net\<lparr>nodes := ns', parameters := rf\<rparr>"
    by (auto simp: attach_parameters_def split: sum.splits prod.splits)
  from run obtain r1 npre r2n d' npost where
    n: "attach_nodes (parameters net) (take i (nodes net)) = Inr (r1, npre)" and
    d: "attach_items r1 (name ?nd) (data ?nd) = Inr (r2n, d')" and
    p: "attach_nodes r2n (drop (Suc i) (nodes net)) = Inr (rf, npost)" and
    ns': "ns' = npre @ (fst (nodes net ! i), ?nd\<lparr>data := d'\<rparr>) # npost"
    by (auto simp: attach_nodes_split [OF i] split: sum.splits prod.splits)
  from d obtain r ipre r2 v' ipost where
    it: "attach_items r1 (name ?nd) (take j (data ?nd)) = Inr (r, ipre)" and
    st: "attach_value r (name ?nd) (fst (data ?nd ! j)) (snd (data ?nd ! j)) = Inr (r2, v')" and
    ip: "attach_items r2 (name ?nd) (drop (Suc j) (data ?nd)) = Inr (r2n, ipost)" and
    d': "d' = ipre @ (fst (data ?nd ! j), v') # ipost"
    by (auto simp: attach_items_split [OF j] split: sum.splits prod.splits)
  have ln: "length npre = i" using attach_nodes_length [OF n] i by simp
  have li: "length ipre = j" using attach_items_length [OF it] j by simp
  have nth: "data (snd (ns' ! i)) ! j = (fst (data ?nd ! j), v')"
    using ln li by (simp add: ns' d' nth_append)
  have reach: "attach_reaches net i j = Some r"
    using n it by (simp add: attach_reaches_def)
  have "r2n = prune (refs_items (drop (Suc j) (data ?nd))) r2"
    using ip by (rule attach_items_reg)
  moreover have "rf = prune (refs_nodes (drop (Suc i) (nodes net))) r2n"
    using p by (rule attach_nodes_reg)
  ultimately have sub: "set rf \<subseteq> set r2" by (auto simp: prune_def)
  show ?thesis
    using reach st nth sub by (auto simp: net' attr_at_def value_at_def)
qed

lemma attach_reaches_prune:
  assumes reach: "attach_reaches net i j = Some r"
  shows "r = prune (refs_nodes (take i (nodes net)) @ refs_items (take j (data (snd (nodes net ! i)))))
               (parameters net)"
proof -
  let ?nd = "snd (nodes net ! i)"
  from reach obtain r1 pre' pre2 where
    n: "attach_nodes (parameters net) (take i (nodes net)) = Inr (r1, pre')" and
    it: "attach_items r1 (name ?nd) (take j (data ?nd)) = Inr (r, pre2)"
    by (auto simp: attach_reaches_def split: sum.splits prod.splits)
  show ?thesis
    using attach_nodes_reg [OF n] attach_items_reg [OF it] by (simp add: prune_append)
qed

lemma attach_result_registry:
  assumes ok: "attach_parameters net = Inr net'"
  shows "parameters net' = prune (refs_nodes (nodes net)) (parameters net)"
  using ok attach_nodes_reg
  by (auto simp: attach_parameters_def split: sum.splits prod.splits)

lemma attach_result_frame:
  assumes ok: "attach_parameters net = Inr net'"
  shows "net' = net\<lparr>nodes := nodes net', parameters := parameters net'\<rparr>
         \<and> length (nodes net') = length (nodes net)"
  using ok attach_nodes_length
  by (auto simp: attach_parameters_def split: sum.splits prod.splits)

section \<open>Runs on the concrete networks\<close>

lemma lower_examples: "lower ''Name'' = ''name''" "lower ''TYPE'' = ''type''"
  by (simp_all add: lower_def lower_char_def)

lemma small_network_attached: "attach_parameters small_network = Inr small_attached"
  by (simp add: attach_parameters_def small_network_def small_attached_def attach_value_def
      lower_def lower_char_def exclude_def dict_del_def)

lemma inline_network_attached: "attach_parameters inline_network = Inr inline_attached"
  by (simp add: attach_parameters_def inline_network_def inline_attached_def inline_data_def
      inline_parameter_def attach_value_def lower_def lower_char_def exclude_def
      canonical_name_def)

section \<open>Claims on attach_parameters\<close>

text \<open>
  C10. The reserved attribute names are excluded whatever their case: an attribute whose
  lowercased name is \<open>name\<close> or \<open>type\<close> leaves the registry as the loop found it and
  keeps its name and value, also when the value is a string naming a global parameter
  or a dict that would be an inline definition.
\<close>

theorem attach_excluded_unchanged:
  assumes pos: "valid_pos net i j"
    and ex: "lower (attr_at net i j) \<in> set exclude"
  shows "(attach_reaches net i j = Some r \<longrightarrow> attach_reaches net i (Suc j) = Some r)
       \<and> (attach_parameters net = Inr net' \<longrightarrow>
            attr_at net' i j = attr_at net i j \<and> value_at net' i j = value_at net i j)"
proof -
  have step: "attach_value r0 nn (attr_at net i j) v = Inr (r0, v)" for r0 nn v
    using ex by (simp add: attach_value_def)
  have a: "attach_reaches net i (Suc j) = Some r" if "attach_reaches net i j = Some r"
    using attach_at_next [OF pos that step] .
  have b: "attr_at net' i j = attr_at net i j \<and> value_at net' i j = value_at net i j"
    if ok: "attach_parameters net = Inr net'"
    using attach_at_result [OF pos ok] step by auto
  show ?thesis using a b by blast
qed

theorem attach_excluded_unchanged_witness:
  "valid_pos small_network 1 0
   \<and> attr_at small_network 1 0 = ''Name''
   \<and> lower (attr_at small_network 1 0) \<in> set exclude
   \<and> value_at small_network 1 0 = PStr ''flow_max''
   \<and> attach_reaches small_network 1 0 = Some []
   \<and> attach_reaches small_network 1 (Suc 0) = Some []
   \<and> attach_parameters small_network = Inr small_attached
   \<and> value_at small_attached 1 0 = PStr ''flow_max''"
proof -
  have pos: "valid_pos small_network 1 0"
    by (simp add: valid_pos_def small_network_def)
  have ex: "lower (attr_at small_network 1 0) \<in> set exclude"
    by (simp add: attr_at_def small_network_def lower_def lower_char_def exclude_def)
  have reach: "attach_reaches small_network 1 0 = Some []"
    by (simp add: attach_reaches_def small_network_def attach_value_def lower_def
        lower_char_def exclude_def dict_del_def)
  have ok: "attach_parameters small_network = Inr small_attached"
    by (simp add: attach_parameters_def small_network_def small_attached_def attach_value_def
        lower_def lower_char_def exclude_def dict_del_def)
  have v: "value_at small_network 1 0 = PStr ''flow_max''"
    by (simp add: value_at_def small_network_def)
  have a: "attr_at small_network 1 0 = ''Name''"
    by (simp add: attr_at_def small_network_def)
  from attach_excluded_unchanged [OF pos ex, of "[]" small_attached] reach ok v
  have "attach_reaches small_network 1 (Suc 0) = Some []
        \<and> value_at small_attached 1 0 = PStr ''flow_max''"
    by simp
  then show ?thesis using pos ex reach ok v a by simp
qed

text \<open>
  C2. The claim as amended. At an attribute whose lowercased name is not \<open>name\<close> or
  \<open>type\<close> and whose value is the string \<open>s\<close>, reached with the registry \<open>r\<close>: when \<open>s\<close>
  is no key of \<open>r\<close> the loop goes on with \<open>r\<close> and the attribute keeps the string; when
  \<open>r\<close> maps \<open>s\<close> to the parameter \<open>p\<close> the loop goes on without the entry of \<open>s\<close>, the
  attribute holds \<open>p\<close> in the result, and \<open>s\<close> is no key of the final registry. No
  exception is raised at the attribute in either case.
\<close>

theorem attach_string_attribute:
  assumes pos: "valid_pos net i j"
    and ne: "lower (attr_at net i j) \<notin> set exclude"
    and val: "value_at net i j = PStr s"
    and reach: "attach_reaches net i j = Some r"
  shows "(map_of r s = None \<longrightarrow>
            attach_reaches net i (Suc j) = Some r
            \<and> (attach_parameters net = Inr net' \<longrightarrow> value_at net' i j = PStr s))
       \<and> (map_of r s = Some p \<longrightarrow>
            attach_reaches net i (Suc j) = Some (dict_del s r)
            \<and> (attach_parameters net = Inr net' \<longrightarrow>
                 value_at net' i j = PParam p \<and> s \<notin> fst ` set (parameters net')))"
proof -
  let ?nn = "name (snd (nodes net ! i))"
  have none: "attach_value r ?nn (attr_at net i j) (value_at net i j) = Inr (r, PStr s)"
    if "map_of r s = None"
    using ne val that by (simp add: attach_value_def)
  have some: "attach_value r ?nn (attr_at net i j) (value_at net i j)
                = Inr (dict_del s r, PParam p)"
    if "map_of r s = Some p"
    using ne val that by (simp add: attach_value_def)
  have res: "value_at net' i j = v' \<and> set (parameters net') \<subseteq> set r2"
    if "attach_parameters net = Inr net'"
      and "attach_value r ?nn (attr_at net i j) (value_at net i j) = Inr (r2, v')" for r2 v'
    using attach_at_result [OF pos that(1)] reach that(2) by auto
  have gone: "s \<notin> fst ` set (dict_del s r)"
    by (auto simp: dict_del_def)
  show ?thesis
  proof (intro conjI impI)
    assume m: "map_of r s = None"
    show "attach_reaches net i (Suc j) = Some r"
      using attach_at_next [OF pos reach none [OF m]] .
    assume ok: "attach_parameters net = Inr net'"
    show "value_at net' i j = PStr s" using res [OF ok none [OF m]] by simp
  next
    assume m: "map_of r s = Some p"
    show "attach_reaches net i (Suc j) = Some (dict_del s r)"
      using attach_at_next [OF pos reach some [OF m]] .
    assume ok: "attach_parameters net = Inr net'"
    show "value_at net' i j = PParam p" using res [OF ok some [OF m]] by simp
    show "s \<notin> fst ` set (parameters net')"
      using res [OF ok some [OF m]] gone by auto
  qed
qed

theorem attach_string_attribute_witness:
  "valid_pos small_network 0 1
   \<and> lower (attr_at small_network 0 1) \<notin> set exclude
   \<and> value_at small_network 0 1 = PStr ''flow_max''
   \<and> attach_reaches small_network 0 1 = Some (parameters small_network)
   \<and> map_of (parameters small_network) ''flow_max''
       = Some (PywrParameter ''flow_max'' (PDict [(''type'', PStr ''constant'')]))
   \<and> attach_reaches small_network 0 (Suc 1) = Some []
   \<and> attach_parameters small_network = Inr small_attached
   \<and> value_at small_attached 0 1
       = PParam (PywrParameter ''flow_max'' (PDict [(''type'', PStr ''constant'')]))
   \<and> ''flow_max'' \<notin> fst ` set (parameters small_attached)
   \<and> valid_pos small_network 1 1
   \<and> lower (attr_at small_network 1 1) \<notin> set exclude
   \<and> value_at small_network 1 1 = PStr ''flow_max''
   \<and> attach_reaches small_network 1 1 = Some []
   \<and> attach_reaches small_network 1 (Suc 1) = Some []
   \<and> value_at small_attached 1 1 = PStr ''flow_max''"
proof -
  let ?p = "PywrParameter ''flow_max'' (PDict [(''type'', PStr ''constant'')])"
  have pos: "valid_pos small_network 0 1" "valid_pos small_network 1 1"
    by (simp_all add: valid_pos_def small_network_def)
  have ne: "lower (attr_at small_network 0 1) \<notin> set exclude"
    "lower (attr_at small_network 1 1) \<notin> set exclude"
    by (simp_all add: attr_at_def small_network_def lower_def lower_char_def exclude_def)
  have val: "value_at small_network 0 1 = PStr ''flow_max''"
    "value_at small_network 1 1 = PStr ''flow_max''"
    by (simp_all add: value_at_def small_network_def)
  have reach: "attach_reaches small_network 0 1 = Some (parameters small_network)"
    "attach_reaches small_network 1 1 = Some []"
    by (simp_all add: attach_reaches_def small_network_def attach_value_def lower_def
        lower_char_def exclude_def dict_del_def)
  have m: "map_of (parameters small_network) ''flow_max'' = Some ?p" "map_of ([] :: (string \<times> parameter) list) ''flow_max'' = None"
    by (simp_all add: small_network_def)
  have del: "dict_del ''flow_max'' (parameters small_network) = []"
    by (simp add: dict_del_def small_network_def)
  note ok = small_network_attached
  have a: "attach_reaches small_network 0 (Suc 1) = Some []
         \<and> value_at small_attached 0 1 = PParam ?p
         \<and> ''flow_max'' \<notin> fst ` set (parameters small_attached)"
    using attach_string_attribute
        [where net' = small_attached and p = ?p, OF pos(1) ne(1) val(1) reach(1)]
      m(1) ok del by simp
  have b: "attach_reaches small_network 1 (Suc 1) = Some []
         \<and> value_at small_attached 1 1 = PStr ''flow_max''"
    using attach_string_attribute
        [where net' = small_attached, OF pos(2) ne(2) val(2) reach(2)]
      m(2) ok by simp
  show ?thesis using pos ne val reach m(1) ok a b by simp
qed

text \<open>
  The claim as stated fails on an attribute that is not named \<open>name\<close> or \<open>type\<close> but
  \<open>Name\<close>: on \<open>shadowed_network\<close> its string is a key of the registry when the loop
  reaches it, and the attribute keeps the string and the registry keeps the entry.
\<close>

lemma shadowed_network_attached: "attach_parameters shadowed_network = Inr shadowed_network"
  by (simp add: attach_parameters_def shadowed_network_def attach_value_def lower_def
      lower_char_def exclude_def)

theorem attach_capital_name_counterexample:
  "valid_pos shadowed_network 0 0
   \<and> attr_at shadowed_network 0 0 = ''Name''
   \<and> ''Name'' \<noteq> ''name'' \<and> ''Name'' \<noteq> ''type''
   \<and> value_at shadowed_network 0 0 = PStr ''flow_max''
   \<and> attach_reaches shadowed_network 0 0 = Some (parameters shadowed_network)
   \<and> map_of (parameters shadowed_network) ''flow_max''
       = Some (PywrParameter ''flow_max'' (PDict [(''type'', PStr ''constant'')]))
   \<and> attach_parameters shadowed_network = Inr shadowed_network
   \<and> ''flow_max'' \<in> fst ` set (parameters shadowed_network)"
  by (simp add: shadowed_network_attached)
    (simp add: valid_pos_def attr_at_def value_at_def attach_reaches_def shadowed_network_def)

lemma refs_items_set:
  "set (refs_items xs) = {s. \<exists>a. (a, PStr s) \<in> set xs \<and> lower a \<notin> set exclude}"
  by (induction xs rule: refs_items.induct) (auto split: pyval.splits)

lemma refs_nodes_set:
  "set (refs_nodes ns) =
     {s. \<exists>k nd a. (k, nd) \<in> set ns \<and> (a, PStr s) \<in> set (data nd) \<and> lower a \<notin> set exclude}"
proof (induction ns rule: refs_nodes.induct)
  case 1
  show ?case by simp
next
  case (2 key nd rest)
  show ?case
    unfolding refs_nodes.simps set_append 2 refs_items_set by auto
qed

lemma seen_before_intro:
  assumes p0: "valid_pos net i0 j0"
    and bf: "pos_before i0 j0 i j"
    and i: "i < length (nodes net)"
    and ne: "lower (attr_at net i0 j0) \<notin> set exclude"
    and val: "value_at net i0 j0 = PStr s"
  shows "s \<in> set (refs_nodes (take i (nodes net))
                  @ refs_items (take j (data (snd (nodes net ! i)))))"
proof -
  let ?d0 = "data (snd (nodes net ! i0))"
  from p0 have i0: "i0 < length (nodes net)" and j0: "j0 < length ?d0"
    by (simp_all add: valid_pos_def)
  have item: "?d0 ! j0 = (attr_at net i0 j0, PStr s)"
    using val by (simp add: attr_at_def value_at_def prod_eq_iff)
  from bf consider "i0 < i" | "i0 = i" "j0 < j" by (auto simp: pos_before_def)
  then show ?thesis
  proof cases
    case 1
    have "nodes net ! i0 \<in> set (take i (nodes net))"
      using 1 i0 by (auto simp: in_set_conv_nth intro!: exI [of _ i0])
    then have "(fst (nodes net ! i0), snd (nodes net ! i0)) \<in> set (take i (nodes net))"
      by simp
    moreover have "(attr_at net i0 j0, PStr s) \<in> set ?d0"
      using j0 item by (metis nth_mem)
    ultimately have "s \<in> set (refs_nodes (take i (nodes net)))"
      using ne unfolding refs_nodes_set by blast
    then show ?thesis by simp
  next
    case 2
    have "?d0 ! j0 \<in> set (take j ?d0)"
      using 2 j0 by (auto simp: in_set_conv_nth intro!: exI [of _ j0])
    then have "s \<in> set (refs_items (take j ?d0))"
      using ne item unfolding refs_items_set by auto
    then show ?thesis using 2 by simp
  qed
qed

lemma seen_before_elim:
  assumes i: "i < length (nodes net)"
    and s: "s \<in> set (refs_nodes (take i (nodes net))
                  @ refs_items (take j (data (snd (nodes net ! i)))))"
  shows "\<exists>i0 j0. valid_pos net i0 j0 \<and> pos_before i0 j0 i j \<and>
           lower (attr_at net i0 j0) \<notin> set exclude \<and> value_at net i0 j0 = PStr s"
proof -
  from s consider "s \<in> set (refs_nodes (take i (nodes net)))"
    | "s \<in> set (refs_items (take j (data (snd (nodes net ! i)))))" by auto
  then show ?thesis
  proof cases
    case 1
    then obtain k nd a where
      kn: "(k, nd) \<in> set (take i (nodes net))" and
      av: "(a, PStr s) \<in> set (data nd)" and ne: "lower a \<notin> set exclude"
      unfolding refs_nodes_set by blast
    from kn obtain i0 where i0: "i0 < i" "i0 < length (nodes net)" "nodes net ! i0 = (k, nd)"
      by (auto simp: in_set_conv_nth)
    from av obtain j0 where j0: "j0 < length (data nd)" "data nd ! j0 = (a, PStr s)"
      by (auto simp: in_set_conv_nth)
    have "valid_pos net i0 j0 \<and> pos_before i0 j0 i j \<and>
           lower (attr_at net i0 j0) \<notin> set exclude \<and> value_at net i0 j0 = PStr s"
      using i0 j0 ne by (simp add: valid_pos_def pos_before_def attr_at_def value_at_def)
    then show ?thesis by blast
  next
    case 2
    let ?d = "data (snd (nodes net ! i))"
    from 2 obtain a where av: "(a, PStr s) \<in> set (take j ?d)" and ne: "lower a \<notin> set exclude"
      unfolding refs_items_set by blast
    from av obtain j0 where j0: "j0 < j" "j0 < length ?d" "?d ! j0 = (a, PStr s)"
      by (auto simp: in_set_conv_nth)
    have "valid_pos net i j0 \<and> pos_before i j0 i j \<and>
           lower (attr_at net i j0) \<notin> set exclude \<and> value_at net i j0 = PStr s"
      using i j0 ne by (simp add: valid_pos_def pos_before_def attr_at_def value_at_def)
    then show ?thesis by blast
  qed
qed

lemma map_of_prune:
  "map_of (prune seen reg) s = (if s \<in> set seen then None else map_of reg s)"
  by (induction reg) (auto simp: prune_def)

lemma attach_excluded_kept:
  assumes ok: "attach_parameters net = Inr net'"
    and pos: "valid_pos net i j"
    and ex: "lower (attr_at net i j) \<in> set exclude"
  shows "value_at net' i j = value_at net i j"
proof -
  have "attach_value r0 nn (attr_at net i j) v = Inr (r0, v)" for r0 nn v
    using ex by (simp add: attach_value_def)
  then show ?thesis using attach_at_result [OF pos ok] by auto
qed

lemma attach_later_holder_kept:
  assumes ok: "attach_parameters net = Inr net'"
    and pos: "valid_pos net i j"
    and ne: "lower (attr_at net i j) \<notin> set exclude"
    and val: "value_at net i j = PStr s"
    and pos': "valid_pos net i' j'"
    and bf: "pos_before i j i' j'"
    and val': "value_at net i' j' = PStr s"
  shows "value_at net' i' j' = PStr s"
proof -
  from pos' have i': "i' < length (nodes net)" by (simp add: valid_pos_def)
  from attach_at_result [OF pos' ok] obtain r r2 where
    reach: "attach_reaches net i' j' = Some r" and
    step: "attach_value r (name (snd (nodes net ! i'))) (attr_at net i' j') (value_at net i' j')
             = Inr (r2, value_at net' i' j')"
    by blast
  have "s \<in> set (refs_nodes (take i' (nodes net))
                  @ refs_items (take j' (data (snd (nodes net ! i')))))"
    using seen_before_intro [OF pos bf i' ne val] .
  then have "map_of r s = None"
    unfolding attach_reaches_prune [OF reach] map_of_prune by simp
  then show ?thesis
    using step val' by (auto simp: attach_value_def split: if_splits)
qed

lemma attach_first_holder_takes:
  assumes ok: "attach_parameters net = Inr net'"
    and pos: "valid_pos net i j"
    and ne: "lower (attr_at net i j) \<notin> set exclude"
    and val: "value_at net i j = PStr s"
    and first: "\<forall>i0 j0. valid_pos net i0 j0 \<and> pos_before i0 j0 i j
                    \<and> lower (attr_at net i0 j0) \<notin> set exclude
                  \<longrightarrow> value_at net i0 j0 \<noteq> PStr s"
    and m: "map_of (parameters net) s = Some p"
  shows "value_at net' i j = PParam p"
proof -
  from pos have i: "i < length (nodes net)" by (simp add: valid_pos_def)
  from attach_at_result [OF pos ok] obtain r r2 where
    reach: "attach_reaches net i j = Some r" and
    step: "attach_value r (name (snd (nodes net ! i))) (attr_at net i j) (value_at net i j)
             = Inr (r2, value_at net' i j)"
    by blast
  have "s \<notin> set (refs_nodes (take i (nodes net))
                  @ refs_items (take j (data (snd (nodes net ! i)))))"
    using seen_before_elim [OF i] first by blast
  then have "map_of r s = Some p"
    unfolding attach_reaches_prune [OF reach] map_of_prune using m by simp
  then show ?thesis
    using step val ne by (auto simp: attach_value_def split: if_splits)
qed

text \<open>Of two attributes that hold the same string, at most one holds something else afterwards.\<close>

lemma attach_one_of_two_kept:
  assumes ok: "attach_parameters net = Inr net'"
    and pos: "valid_pos net i j"
    and val: "value_at net i j = PStr s"
    and pos': "valid_pos net i' j'"
    and val': "value_at net i' j' = PStr s"
    and bf: "pos_before i j i' j'"
  shows "value_at net' i j = PStr s \<or> value_at net' i' j' = PStr s"
proof (cases "lower (attr_at net i j) \<in> set exclude")
  case True
  then show ?thesis using attach_excluded_kept [OF ok pos] val by simp
next
  case False
  then show ?thesis using attach_later_holder_kept [OF ok pos False val pos' bf val'] by simp
qed

text \<open>
  C9. The claim as amended. When \<open>attach_parameters\<close> returns, of two attributes that
  hold the same string \<open>s\<close> at most one holds something else afterwards. Every attribute
  that holds \<open>s\<close> and is visited after an attribute that holds \<open>s\<close> and whose lowercased
  name is not \<open>name\<close> or \<open>type\<close> keeps the string; and the first attribute with such a
  name that holds \<open>s\<close> holds afterwards the parameter that the registry had for \<open>s\<close>.
\<close>

theorem attach_claims_once:
  assumes ok: "attach_parameters net = Inr net'"
    and pos: "valid_pos net i j"
    and val: "value_at net i j = PStr s"
  shows "(valid_pos net i' j' \<and> (i' \<noteq> i \<or> j' \<noteq> j) \<and> value_at net i' j' = PStr s
            \<longrightarrow> value_at net' i j = PStr s \<or> value_at net' i' j' = PStr s)
       \<and> (lower (attr_at net i j) \<notin> set exclude
            \<and> valid_pos net i' j' \<and> pos_before i j i' j' \<and> value_at net i' j' = PStr s
            \<longrightarrow> value_at net' i' j' = PStr s)
       \<and> (lower (attr_at net i j) \<notin> set exclude
            \<and> (\<forall>i0 j0. valid_pos net i0 j0 \<and> pos_before i0 j0 i j
                    \<and> lower (attr_at net i0 j0) \<notin> set exclude
                  \<longrightarrow> value_at net i0 j0 \<noteq> PStr s)
            \<and> map_of (parameters net) s = Some p
            \<longrightarrow> value_at net' i j = PParam p)"
proof (intro conjI impI)
  assume other: "valid_pos net i' j' \<and> (i' \<noteq> i \<or> j' \<noteq> j) \<and> value_at net i' j' = PStr s"
  then have pos': "valid_pos net i' j'" and val': "value_at net i' j' = PStr s" by simp_all
  from other have "i' \<noteq> i \<or> j' \<noteq> j" by simp
  then have "pos_before i j i' j' \<or> pos_before i' j' i j"
    unfolding pos_before_def by arith
  then consider "pos_before i j i' j'" | "pos_before i' j' i j" by blast
  then show "value_at net' i j = PStr s \<or> value_at net' i' j' = PStr s"
  proof cases
    case 1
    then show ?thesis using attach_one_of_two_kept [OF ok pos val pos' val'] by simp
  next
    case 2
    then show ?thesis using attach_one_of_two_kept [OF ok pos' val' pos val] by blast
  qed
next
  assume "lower (attr_at net i j) \<notin> set exclude
            \<and> valid_pos net i' j' \<and> pos_before i j i' j' \<and> value_at net i' j' = PStr s"
  then show "value_at net' i' j' = PStr s"
    using attach_later_holder_kept [OF ok pos _ val] by blast
next
  assume "lower (attr_at net i j) \<notin> set exclude
            \<and> (\<forall>i0 j0. valid_pos net i0 j0 \<and> pos_before i0 j0 i j
                    \<and> lower (attr_at net i0 j0) \<notin> set exclude
                  \<longrightarrow> value_at net i0 j0 \<noteq> PStr s)
            \<and> map_of (parameters net) s = Some p"
  then show "value_at net' i j = PParam p"
    using attach_first_holder_takes [OF ok pos _ val] by blast
qed

theorem attach_claims_once_witness:
  "attach_parameters small_network = Inr small_attached
   \<and> valid_pos small_network 0 1
   \<and> lower (attr_at small_network 0 1) \<notin> set exclude
   \<and> value_at small_network 0 1 = PStr ''flow_max''
   \<and> valid_pos small_network 1 1
   \<and> pos_before 0 1 1 1
   \<and> value_at small_network 1 1 = PStr ''flow_max''
   \<and> value_at small_attached 1 1 = PStr ''flow_max''
   \<and> map_of (parameters small_network) ''flow_max''
       = Some (PywrParameter ''flow_max'' (PDict [(''type'', PStr ''constant'')]))
   \<and> value_at small_attached 0 1
       = PParam (PywrParameter ''flow_max'' (PDict [(''type'', PStr ''constant'')]))
   \<and> (value_at small_attached 0 1 = PStr ''flow_max''
        \<or> value_at small_attached 1 1 = PStr ''flow_max'')"
proof -
  let ?p = "PywrParameter ''flow_max'' (PDict [(''type'', PStr ''constant'')])"
  note ok = small_network_attached
  have pos: "valid_pos small_network 0 1" "valid_pos small_network 1 1"
    by (simp_all add: valid_pos_def small_network_def)
  have ne: "lower (attr_at small_network 0 1) \<notin> set exclude"
    by (simp add: attr_at_def small_network_def lower_def lower_char_def exclude_def)
  have val: "value_at small_network 0 1 = PStr ''flow_max''"
    "value_at small_network 1 1 = PStr ''flow_max''"
    by (simp_all add: value_at_def small_network_def)
  have bf: "pos_before 0 1 1 1" by (simp add: pos_before_def)
  have m: "map_of (parameters small_network) ''flow_max'' = Some ?p"
    by (simp add: small_network_def)
  have first: "\<forall>i0 j0. valid_pos small_network i0 j0 \<and> pos_before i0 j0 0 1
                    \<and> lower (attr_at small_network i0 j0) \<notin> set exclude
                  \<longrightarrow> value_at small_network i0 j0 \<noteq> PStr ''flow_max''"
    by (auto simp: pos_before_def value_at_def small_network_def)
  have "value_at small_attached 1 1 = PStr ''flow_max''
        \<and> value_at small_attached 0 1 = PParam ?p
        \<and> (value_at small_attached 0 1 = PStr ''flow_max''
             \<or> value_at small_attached 1 1 = PStr ''flow_max'')"
    using attach_claims_once [where i' = 1 and j' = 1 and p = ?p, OF ok pos(1) val(1)]
      pos(2) bf val(2) m first ne
    by blast
  then show ?thesis using ok pos ne val bf m by simp
qed

text \<open>
  The claim as stated fails where the first attribute visited that holds the string has
  a reserved name in another case: on \<open>capital_name_network\<close> the attribute \<open>Name\<close>,
  visited first, keeps the string and the attribute \<open>max_flow\<close>, visited after it,
  receives the parameter.
\<close>

lemma capital_name_network_attached:
  "attach_parameters capital_name_network = Inr capital_name_attached"
  by (simp add: attach_parameters_def capital_name_network_def capital_name_attached_def
      shadowed_network_def attach_value_def lower_def lower_char_def exclude_def dict_del_def)

theorem attach_first_holder_counterexample:
  "valid_pos capital_name_network 0 0
   \<and> valid_pos capital_name_network 0 1
   \<and> pos_before 0 0 0 1
   \<and> attr_at capital_name_network 0 0 = ''Name''
   \<and> value_at capital_name_network 0 0 = PStr ''flow_max''
   \<and> value_at capital_name_network 0 1 = PStr ''flow_max''
   \<and> map_of (parameters capital_name_network) ''flow_max''
       = Some (PywrParameter ''flow_max'' (PDict [(''type'', PStr ''constant'')]))
   \<and> attach_parameters capital_name_network = Inr capital_name_attached
   \<and> value_at capital_name_attached 0 0 = PStr ''flow_max''
   \<and> value_at capital_name_attached 0 1
       = PParam (PywrParameter ''flow_max'' (PDict [(''type'', PStr ''constant'')]))"
  by (simp add: capital_name_network_attached)
    (simp add: valid_pos_def pos_before_def attr_at_def value_at_def capital_name_network_def
      capital_name_attached_def shadowed_network_def)

text \<open>
  C3. The claim as amended. At an attribute that is not excluded and whose value is the
  dict \<open>d\<close>, reached with the registry \<open>r\<close>: when \<open>d\<close> has no \<open>type\<close>, or its \<open>type\<close> is
  false (the empty string among others), or is a string with \<open>recorder\<close> in it whatever
  the case, the loop goes on with \<open>r\<close> and the attribute keeps the dict. When the \<open>type\<close>
  is a non-empty string without \<open>recorder\<close>, \<open>ValueError\<close> is raised exactly when the
  canonical name of the node name and the attribute name is a key of \<open>r\<close>; otherwise the
  loop goes on with \<open>r\<close> and the attribute holds a new parameter of that name built from
  \<open>d\<close>.
\<close>

theorem attach_inline_dict:
  assumes pos: "valid_pos net i j"
    and ne: "lower (attr_at net i j) \<notin> set exclude"
    and val: "value_at net i j = PDict d"
    and reach: "attach_reaches net i j = Some r"
  shows "((map_of d ''type'' = None
            \<or> (\<exists>x. map_of d ''type'' = Some x \<and> \<not> truthy x)
            \<or> (\<exists>ts. map_of d ''type'' = Some (PStr ts) \<and> str_in ''recorder'' (lower ts)))
          \<longrightarrow> attach_reaches net i (Suc j) = Some r
              \<and> (attach_parameters net = Inr net' \<longrightarrow> value_at net' i j = PDict d))
       \<and> (map_of d ''type'' = Some (PStr t) \<and> t \<noteq> [] \<and> \<not> str_in ''recorder'' (lower t)
          \<longrightarrow> (canonical_name (name (snd (nodes net ! i))) (attr_at net i j) \<in> fst ` set r
                \<longrightarrow> attach_parameters net = Inl (ValueError ''inline dups global param''))
              \<and> (canonical_name (name (snd (nodes net ! i))) (attr_at net i j) \<notin> fst ` set r
                \<longrightarrow> attach_reaches net i (Suc j) = Some r
                    \<and> (attach_parameters net = Inr net' \<longrightarrow>
                         value_at net' i j =
                           PParam (PywrParameter
                             (canonical_name (name (snd (nodes net ! i))) (attr_at net i j))
                             (PDict d)))))"
proof -
  let ?nn = "name (snd (nodes net ! i))"
  let ?cn = "canonical_name ?nn (attr_at net i j)"
  let ?step = "attach_value r ?nn (attr_at net i j) (value_at net i j)"
  have res: "value_at net' i j = v'"
    if "attach_parameters net = Inr net'" and "?step = Inr (r2, v')" for r2 v'
    using attach_at_result [OF pos that(1)] reach that(2) by auto
  have skip: "?step = Inr (r, PDict d)"
    if "map_of d ''type'' = None
        \<or> (\<exists>x. map_of d ''type'' = Some x \<and> \<not> truthy x)
        \<or> (\<exists>ts. map_of d ''type'' = Some (PStr ts) \<and> str_in ''recorder'' (lower ts))"
    using that ne val by (auto simp: attach_value_def)
  have dup: "?step = Inl (ValueError ''inline dups global param'')"
    if "map_of d ''type'' = Some (PStr t) \<and> t \<noteq> [] \<and> \<not> str_in ''recorder'' (lower t)"
      and "?cn \<in> fst ` set r"
    using that ne val by (simp add: attach_value_def)
  have new: "?step = Inr (r, PParam (PywrParameter ?cn (PDict d)))"
    if "map_of d ''type'' = Some (PStr t) \<and> t \<noteq> [] \<and> \<not> str_in ''recorder'' (lower t)"
      and "?cn \<notin> fst ` set r"
    using that ne val by (simp add: attach_value_def)
  show ?thesis
  proof (intro conjI impI)
    assume c: "map_of d ''type'' = None
        \<or> (\<exists>x. map_of d ''type'' = Some x \<and> \<not> truthy x)
        \<or> (\<exists>ts. map_of d ''type'' = Some (PStr ts) \<and> str_in ''recorder'' (lower ts))"
    show "attach_reaches net i (Suc j) = Some r"
      using attach_at_next [OF pos reach skip [OF c]] .
    assume ok: "attach_parameters net = Inr net'"
    show "value_at net' i j = PDict d" using res [OF ok skip [OF c]] .
  next
    assume c: "map_of d ''type'' = Some (PStr t) \<and> t \<noteq> [] \<and> \<not> str_in ''recorder'' (lower t)"
      and k: "?cn \<in> fst ` set r"
    show "attach_parameters net = Inl (ValueError ''inline dups global param'')"
      using attach_at_error [OF pos reach dup [OF c k]] .
  next
    assume c: "map_of d ''type'' = Some (PStr t) \<and> t \<noteq> [] \<and> \<not> str_in ''recorder'' (lower t)"
      and k: "?cn \<notin> fst ` set r"
    show "attach_reaches net i (Suc j) = Some r"
      using attach_at_next [OF pos reach new [OF c k]] .
    assume ok: "attach_parameters net = Inr net'"
    show "value_at net' i j = PParam (PywrParameter ?cn (PDict d))"
      using res [OF ok new [OF c k]] .
  qed
qed


lemmas inline_eval =
  valid_pos_def attr_at_def value_at_def attach_reaches_def attach_value_def
  inline_network_def inline_data_def colliding_network_def
  lower_def lower_char_def exclude_def canonical_name_def

theorem attach_inline_dict_witness:
  "valid_pos inline_network 0 1
   \<and> lower (attr_at inline_network 0 1) \<notin> set exclude
   \<and> attach_reaches inline_network 0 1 = Some []
   \<and> attach_reaches inline_network 0 (Suc 1) = Some []
   \<and> attach_parameters inline_network = Inr inline_attached
   \<and> value_at inline_attached 0 1 = PParam inline_parameter
   \<and> attach_reaches colliding_network 0 1 = Some (parameters colliding_network)
   \<and> canonical_name ''Reservoir1'' ''max_flow'' \<in> fst ` set (parameters colliding_network)
   \<and> attach_parameters colliding_network = Inl (ValueError ''inline dups global param'')
   \<and> value_at inline_network 0 2 = PDict [(''type'', PStr ''NumpyArrayStorageRecorder'')]
   \<and> str_in ''recorder'' (lower ''NumpyArrayStorageRecorder'')
   \<and> attach_reaches inline_network 0 (Suc 2) = Some []
   \<and> value_at inline_attached 0 2 = PDict [(''type'', PStr ''NumpyArrayStorageRecorder'')]"
proof -
  let ?d = "[(''type'', PStr ''monthlyprofileparameter''), (''values'', PList [PNum 1, PNum 2])]"
  let ?rec = "[(''type'', PStr ''NumpyArrayStorageRecorder'')]"
  note ok = inline_network_attached
  have pos: "valid_pos inline_network 0 1" "valid_pos colliding_network 0 1"
    "valid_pos inline_network 0 2"
    by (simp_all add: inline_eval)
  have ne: "lower (attr_at inline_network 0 1) \<notin> set exclude"
    "lower (attr_at colliding_network 0 1) \<notin> set exclude"
    "lower (attr_at inline_network 0 2) \<notin> set exclude"
    by (simp_all add: inline_eval)
  have val: "value_at inline_network 0 1 = PDict ?d" "value_at colliding_network 0 1 = PDict ?d"
    "value_at inline_network 0 2 = PDict ?rec"
    by (simp_all add: inline_eval)
  have reach: "attach_reaches inline_network 0 1 = Some []"
    "attach_reaches colliding_network 0 1 = Some (parameters colliding_network)"
    "attach_reaches inline_network 0 2 = Some []"
    by (simp_all add: inline_eval)
  have ty: "map_of ?d ''type'' = Some (PStr ''monthlyprofileparameter'')
            \<and> ''monthlyprofileparameter'' \<noteq> []
            \<and> \<not> str_in ''recorder'' (lower ''monthlyprofileparameter'')"
    by (simp add: lower_def lower_char_def)
  have rec: "map_of ?rec ''type'' = Some (PStr ''NumpyArrayStorageRecorder'')"
    "str_in ''recorder'' (lower ''NumpyArrayStorageRecorder'')"
    by (simp_all add: lower_def lower_char_def)
  have cn: "canonical_name (name (snd (nodes inline_network ! 0))) (attr_at inline_network 0 1)
              = ''__Reservoir1__:max_flow''"
    "canonical_name (name (snd (nodes colliding_network ! 0))) (attr_at colliding_network 0 1)
              = ''__Reservoir1__:max_flow''"
    "canonical_name ''Reservoir1'' ''max_flow'' = ''__Reservoir1__:max_flow''"
    by (simp_all add: inline_eval)
  have keys: "''__Reservoir1__:max_flow'' \<in> fst ` set (parameters colliding_network)"
    by (simp add: colliding_network_def)
  have a: "attach_reaches inline_network 0 (Suc 1) = Some []
           \<and> value_at inline_attached 0 1 = PParam inline_parameter"
    using attach_inline_dict
        [where net' = inline_attached and t = "''monthlyprofileparameter''",
          OF pos(1) ne(1) val(1) reach(1)]
      ty ok cn(1) by (simp add: inline_parameter_def)
  have b: "attach_parameters colliding_network = Inl (ValueError ''inline dups global param'')"
    using attach_inline_dict
        [where t = "''monthlyprofileparameter''", OF pos(2) ne(2) val(2) reach(2)]
      ty cn(2) keys by simp
  have c: "attach_reaches inline_network 0 (Suc 2) = Some []
           \<and> value_at inline_attached 0 2 = PDict ?rec"
    using attach_inline_dict [where net' = inline_attached, OF pos(3) ne(3) val(3) reach(3)]
      rec ok by simp
  show ?thesis using pos ne val reach rec ok cn(3) keys a b c by simp
qed

text \<open>
  The claim as stated fails on a dict whose \<open>type\<close> is the empty string: the field is
  there and has no \<open>recorder\<close> in it, and the attribute is skipped all the same.
\<close>

theorem attach_empty_type_counterexample:
  "valid_pos inline_network 0 3
   \<and> lower (attr_at inline_network 0 3) \<notin> set exclude
   \<and> value_at inline_network 0 3 = PDict [(''type'', PStr [])]
   \<and> map_of [(''type'', PStr [])] ''type'' = Some (PStr [])
   \<and> \<not> str_in ''recorder'' (lower [])
   \<and> attach_parameters inline_network = Inr inline_attached
   \<and> value_at inline_attached 0 3 = PDict [(''type'', PStr [])]"
  by (simp add: inline_network_attached)
    (simp add: valid_pos_def attr_at_def value_at_def inline_network_def inline_attached_def
      inline_data_def lower_def lower_char_def exclude_def)

section \<open>The loop of detach_parameters\<close>

lemma detach_items_append:
  "detach_items reg (xs @ ys) =
     (case detach_items reg xs of
        Inl e \<Rightarrow> Inl e
      | Inr (r1, xs') \<Rightarrow>
          (case detach_items r1 ys of
             Inl e \<Rightarrow> Inl e
           | Inr (r2, ys') \<Rightarrow> Inr (r2, xs' @ ys')))"
  by (induction xs arbitrary: reg) (auto split: sum.splits prod.splits)

lemma detach_nodes_append:
  "detach_nodes reg (xs @ ys) =
     (case detach_nodes reg xs of
        Inl e \<Rightarrow> Inl e
      | Inr (r1, xs') \<Rightarrow>
          (case detach_nodes r1 ys of
             Inl e \<Rightarrow> Inl e
           | Inr (r2, ys') \<Rightarrow> Inr (r2, xs' @ ys')))"
  by (induction xs arbitrary: reg) (auto split: sum.splits prod.splits)

lemma detach_items_length:
  "detach_items reg xs = Inr (r, xs') \<Longrightarrow> length xs' = length xs"
  by (induction xs arbitrary: reg r xs') (auto split: sum.splits prod.splits)

lemma detach_nodes_length:
  "detach_nodes reg xs = Inr (r, xs') \<Longrightarrow> length xs' = length xs"
  by (induction xs arbitrary: reg r xs') (auto split: sum.splits prod.splits)

lemma detach_value_cases:
  "detach_value reg v =
     (case v of
        PParam p \<Rightarrow>
          if param_name p \<in> fst ` set reg
          then Inl (ValueError ''Attr param name duplicates global param name'')
          else Inr (reg @ [(param_name p, p)], PStr (param_name p))
      | _ \<Rightarrow> Inr (reg, v))"
  by (simp add: detach_value_def dict_set_fresh split: pyval.splits)

text \<open>
  What \<open>detach_parameters\<close> computes, in closed form: it raises exactly when two held
  parameters share a name or one has the name of a registry key; otherwise the held
  parameters are appended to the registry in the order of the visit.
\<close>

lemma detach_items_closed:
  "detach_items reg xs =
     (if distinct (map fst (held_items xs)) \<and> fst ` set (held_items xs) \<inter> fst ` set reg = {}
      then Inr (reg @ held_items xs, map (\<lambda>av. (fst av, detached (snd av))) xs)
      else Inl (ValueError ''Attr param name duplicates global param name''))"
proof (induction xs arbitrary: reg)
  case Nil
  show ?case by simp
next
  case (Cons x xs)
  obtain a v where x: "x = (a, v)" by (cases x)
  show ?case
  proof (cases v)
    case (PParam p)
    show ?thesis
    proof (cases "param_name p \<in> fst ` set reg")
      case True
      then show ?thesis by (simp add: x PParam detach_value_cases)
    next
      case False
      have "detach_items reg (x # xs) =
          (case detach_items (reg @ [(param_name p, p)]) xs of
             Inl e \<Rightarrow> Inl e
           | Inr (r2, rest1) \<Rightarrow> Inr (r2, (a, PStr (param_name p)) # rest1))"
        using False by (simp add: x PParam detach_value_cases)
      then show ?thesis
        using False unfolding Cons.IH
        by (auto simp: x PParam detached_def)
    qed
  qed (simp_all add: x detach_value_cases Cons.IH detached_def)
qed

lemma detach_nodes_closed:
  "detach_nodes reg ns =
     (if distinct (map fst (held_nodes ns)) \<and> fst ` set (held_nodes ns) \<inter> fst ` set reg = {}
      then Inr (reg @ held_nodes ns,
                map (\<lambda>kn. (fst kn, (snd kn)\<lparr>data :=
                       map (\<lambda>av. (fst av, detached (snd av))) (data (snd kn))\<rparr>)) ns)
      else Inl (ValueError ''Attr param name duplicates global param name''))"
proof (induction ns arbitrary: reg)
  case Nil
  show ?case by simp
next
  case (Cons x ns)
  obtain k nd where x: "x = (k, nd)" by (cases x)
  show ?case
    unfolding x detach_nodes.simps detach_items_closed Cons.IH
    by (auto simp: image_Un)
qed

lemma detach_items_mid:
  "detach_items reg (pre @ (a, v) # post) =
     (case detach_items reg pre of
        Inl e \<Rightarrow> Inl e
      | Inr (r1, pre') \<Rightarrow>
          (case detach_value r1 v of
             Inl e \<Rightarrow> Inl e
           | Inr (r2, v') \<Rightarrow>
               (case detach_items r2 post of
                  Inl e \<Rightarrow> Inl e
                | Inr (r3, post') \<Rightarrow> Inr (r3, pre' @ (a, v') # post'))))"
  by (simp add: detach_items_append split: sum.splits prod.splits)

lemma detach_nodes_mid:
  "detach_nodes reg (pre @ (k, nd) # post) =
     (case detach_nodes reg pre of
        Inl e \<Rightarrow> Inl e
      | Inr (r1, pre') \<Rightarrow>
          (case detach_items r1 (data nd) of
             Inl e \<Rightarrow> Inl e
           | Inr (r2, d') \<Rightarrow>
               (case detach_nodes r2 post of
                  Inl e \<Rightarrow> Inl e
                | Inr (r3, post') \<Rightarrow> Inr (r3, pre' @ (k, nd\<lparr>data := d'\<rparr>) # post'))))"
  by (simp add: detach_nodes_append split: sum.splits prod.splits)

lemma detach_items_split:
  assumes "j < length xs"
  shows "detach_items reg xs =
     (case detach_items reg (take j xs) of
        Inl e \<Rightarrow> Inl e
      | Inr (r1, pre') \<Rightarrow>
          (case detach_value r1 (snd (xs ! j)) of
             Inl e \<Rightarrow> Inl e
           | Inr (r2, v') \<Rightarrow>
               (case detach_items r2 (drop (Suc j) xs) of
                  Inl e \<Rightarrow> Inl e
                | Inr (r3, post') \<Rightarrow> Inr (r3, pre' @ (fst (xs ! j), v') # post'))))"
proof -
  obtain a v where xj: "xs ! j = (a, v)" by (cases "xs ! j")
  have eq: "xs = take j xs @ (a, v) # drop (Suc j) xs"
    using id_take_nth_drop [OF assms] xj by simp
  have "detach_items reg xs = detach_items reg (take j xs @ (a, v) # drop (Suc j) xs)"
    by (rule arg_cong [where f = "detach_items reg", OF eq])
  then show ?thesis by (simp only: detach_items_mid xj fst_conv snd_conv)
qed

lemma detach_nodes_split:
  assumes "i < length ns"
  shows "detach_nodes reg ns =
     (case detach_nodes reg (take i ns) of
        Inl e \<Rightarrow> Inl e
      | Inr (r1, pre') \<Rightarrow>
          (case detach_items r1 (data (snd (ns ! i))) of
             Inl e \<Rightarrow> Inl e
           | Inr (r2, d') \<Rightarrow>
               (case detach_nodes r2 (drop (Suc i) ns) of
                  Inl e \<Rightarrow> Inl e
                | Inr (r3, post') \<Rightarrow>
                    Inr (r3, pre' @ (fst (ns ! i), (snd (ns ! i))\<lparr>data := d'\<rparr>) # post'))))"
proof -
  obtain k nd where xi: "ns ! i = (k, nd)" by (cases "ns ! i")
  have eq: "ns = take i ns @ (k, nd) # drop (Suc i) ns"
    using id_take_nth_drop [OF assms] xi by simp
  have "detach_nodes reg ns = detach_nodes reg (take i ns @ (k, nd) # drop (Suc i) ns)"
    by (rule arg_cong [where f = "detach_nodes reg", OF eq])
  then show ?thesis by (simp only: detach_nodes_mid xi fst_conv snd_conv)
qed

lemma detach_at_error:
  assumes pos: "valid_pos net i j"
    and reach: "detach_reaches net i j = Some r"
    and step: "detach_value r (value_at net i j) = Inl e"
  shows "detach_parameters net = Inl e"
proof -
  let ?nd = "snd (nodes net ! i)"
  from pos have i: "i < length (nodes net)" and j: "j < length (data ?nd)"
    by (simp_all add: valid_pos_def)
  from reach obtain r1 pre' pre2 where
    n: "detach_nodes (parameters net) (take i (nodes net)) = Inr (r1, pre')" and
    it: "detach_items r1 (take j (data ?nd)) = Inr (r, pre2)"
    by (auto simp: detach_reaches_def split: sum.splits prod.splits)
  have "detach_items r1 (data ?nd) = Inl e"
    using it step by (simp add: detach_items_split [OF j] value_at_def)
  then have "detach_nodes (parameters net) (nodes net) = Inl e"
    using n by (simp add: detach_nodes_split [OF i])
  then show ?thesis by (simp add: detach_parameters_def)
qed

lemma detach_at_next:
  assumes pos: "valid_pos net i j"
    and reach: "detach_reaches net i j = Some r"
    and step: "detach_value r (value_at net i j) = Inr (r2, v')"
  shows "detach_reaches net i (Suc j) = Some r2"
proof -
  let ?nd = "snd (nodes net ! i)"
  from pos have i: "i < length (nodes net)" and j: "j < length (data ?nd)"
    by (simp_all add: valid_pos_def)
  from reach obtain r1 pre' pre2 where
    n: "detach_nodes (parameters net) (take i (nodes net)) = Inr (r1, pre')" and
    it: "detach_items r1 (take j (data ?nd)) = Inr (r, pre2)"
    by (auto simp: detach_reaches_def split: sum.splits prod.splits)
  obtain a v where xj: "data ?nd ! j = (a, v)" by (cases "data ?nd ! j")
  have tk: "take (Suc j) (data ?nd) = take j (data ?nd) @ [(a, v)]"
    using take_Suc_conv_app_nth [OF j] xj by simp
  have st: "detach_value r v = Inr (r2, v')"
    using step xj by (simp add: value_at_def)
  have "detach_items r1 (take (Suc j) (data ?nd)) = Inr (r2, pre2 @ [(a, v')])"
    using it st by (simp add: tk detach_items_append)
  then show ?thesis using n by (simp add: detach_reaches_def)
qed

lemma detach_items_grows:
  "detach_items reg xs = Inr (r, xs') \<Longrightarrow> \<exists>more. r = reg @ more"
  by (auto simp: detach_items_closed split: if_splits)

lemma detach_nodes_grows:
  "detach_nodes reg ns = Inr (r, ns') \<Longrightarrow> \<exists>more. r = reg @ more"
  by (auto simp: detach_nodes_closed split: if_splits)

lemma detach_at_result:
  assumes pos: "valid_pos net i j"
    and ok: "detach_parameters net = Inr net'"
  shows "\<exists>r r2 more. detach_reaches net i j = Some r \<and>
           detach_value r (value_at net i j) = Inr (r2, value_at net' i j) \<and>
           attr_at net' i j = attr_at net i j \<and>
           parameters net' = r2 @ more"
proof -
  let ?nd = "snd (nodes net ! i)"
  from pos have i: "i < length (nodes net)" and j: "j < length (data ?nd)"
    by (simp_all add: valid_pos_def)
  from ok obtain rf ns' where
    run: "detach_nodes (parameters net) (nodes net) = Inr (rf, ns')" and
    net': "net' = net\<lparr>nodes := ns', parameters := rf\<rparr>"
    by (auto simp: detach_parameters_def split: sum.splits prod.splits)
  from run obtain r1 npre r2n d' npost where
    n: "detach_nodes (parameters net) (take i (nodes net)) = Inr (r1, npre)" and
    d: "detach_items r1 (data ?nd) = Inr (r2n, d')" and
    p: "detach_nodes r2n (drop (Suc i) (nodes net)) = Inr (rf, npost)" and
    ns': "ns' = npre @ (fst (nodes net ! i), ?nd\<lparr>data := d'\<rparr>) # npost"
    by (auto simp: detach_nodes_split [OF i] split: sum.splits prod.splits)
  from d obtain r ipre r2 v' ipost where
    it: "detach_items r1 (take j (data ?nd)) = Inr (r, ipre)" and
    st: "detach_value r (snd (data ?nd ! j)) = Inr (r2, v')" and
    ip: "detach_items r2 (drop (Suc j) (data ?nd)) = Inr (r2n, ipost)" and
    d': "d' = ipre @ (fst (data ?nd ! j), v') # ipost"
    by (auto simp: detach_items_split [OF j] split: sum.splits prod.splits)
  have ln: "length npre = i" using detach_nodes_length [OF n] i by simp
  have li: "length ipre = j" using detach_items_length [OF it] j by simp
  have nth: "data (snd (ns' ! i)) ! j = (fst (data ?nd ! j), v')"
    using ln li by (simp add: ns' d' nth_append)
  have reach: "detach_reaches net i j = Some r"
    using n it by (simp add: detach_reaches_def)
  from detach_items_grows [OF ip] obtain m1 where m1: "r2n = r2 @ m1" by blast
  from detach_nodes_grows [OF p] obtain m2 where m2: "rf = r2n @ m2" by blast
  have "rf = r2 @ (m1 @ m2)" using m1 m2 by simp
  then show ?thesis
    using reach st nth by (auto simp: net' attr_at_def value_at_def)
qed

text \<open>An exception of the operation is the exception of the visit of some position.\<close>

lemma detach_items_error:
  "detach_items reg xs = Inl e \<Longrightarrow>
     \<exists>j r pre'. j < length xs \<and> detach_items reg (take j xs) = Inr (r, pre') \<and>
       detach_value r (snd (xs ! j)) = Inl e"
proof (induction xs arbitrary: reg)
  case Nil
  then show ?case by simp
next
  case (Cons x xs)
  obtain a v where x: "x = (a, v)" by (cases x)
  show ?case
  proof (cases "detach_value reg v")
    case (Inl e')
    then have "e' = e" using Cons.prems x by simp
    then have "0 < length (x # xs) \<and> detach_items reg (take 0 (x # xs)) = Inr (reg, []) \<and>
       detach_value reg (snd ((x # xs) ! 0)) = Inl e"
      using Inl x by simp
    then show ?thesis by blast
  next
    case (Inr rv)
    obtain r1 v1 where rv: "rv = (r1, v1)" by (cases rv)
    have "detach_items r1 xs = Inl e"
      using Cons.prems x Inr rv by (simp split: sum.splits prod.splits)
    from Cons.IH [OF this] obtain j r pre' where
      j: "j < length xs" and t: "detach_items r1 (take j xs) = Inr (r, pre')" and
      s: "detach_value r (snd (xs ! j)) = Inl e" by blast
    have "Suc j < length (x # xs) \<and>
       detach_items reg (take (Suc j) (x # xs)) = Inr (r, (a, v1) # pre') \<and>
       detach_value r (snd ((x # xs) ! Suc j)) = Inl e"
      using j t s x Inr rv by simp
    then show ?thesis by blast
  qed
qed

lemma detach_nodes_error:
  "detach_nodes reg ns = Inl e \<Longrightarrow>
     \<exists>i r pre'. i < length ns \<and> detach_nodes reg (take i ns) = Inr (r, pre') \<and>
       detach_items r (data (snd (ns ! i))) = Inl e"
proof (induction ns arbitrary: reg)
  case Nil
  then show ?case by simp
next
  case (Cons x ns)
  obtain k nd where x: "x = (k, nd)" by (cases x)
  show ?case
  proof (cases "detach_items reg (data nd)")
    case (Inl e')
    then have "e' = e" using Cons.prems x by simp
    then have "0 < length (x # ns) \<and> detach_nodes reg (take 0 (x # ns)) = Inr (reg, []) \<and>
       detach_items reg (data (snd ((x # ns) ! 0))) = Inl e"
      using Inl x by simp
    then show ?thesis by blast
  next
    case (Inr rv)
    obtain r1 d1 where rv: "rv = (r1, d1)" by (cases rv)
    have "detach_nodes r1 ns = Inl e"
      using Cons.prems x Inr rv by (simp split: sum.splits prod.splits)
    from Cons.IH [OF this] obtain i r pre' where
      i: "i < length ns" and t: "detach_nodes r1 (take i ns) = Inr (r, pre')" and
      s: "detach_items r (data (snd (ns ! i))) = Inl e" by blast
    have "Suc i < length (x # ns) \<and>
       detach_nodes reg (take (Suc i) (x # ns)) = Inr (r, (k, nd\<lparr>data := d1\<rparr>) # pre') \<and>
       detach_items r (data (snd ((x # ns) ! Suc i))) = Inl e"
      using i t s x Inr rv by simp
    then show ?thesis by blast
  qed
qed

lemma detach_error_position:
  assumes "detach_parameters net = Inl e"
  shows "\<exists>i j r. valid_pos net i j \<and> detach_reaches net i j = Some r \<and>
           detach_value r (value_at net i j) = Inl e"
proof -
  from assms have "detach_nodes (parameters net) (nodes net) = Inl e"
    by (auto simp: detach_parameters_def split: sum.splits prod.splits)
  from detach_nodes_error [OF this] obtain i r1 pre' where
    i: "i < length (nodes net)" and
    n: "detach_nodes (parameters net) (take i (nodes net)) = Inr (r1, pre')" and
    d: "detach_items r1 (data (snd (nodes net ! i))) = Inl e" by blast
  from detach_items_error [OF d] obtain j r pre2 where
    j: "j < length (data (snd (nodes net ! i)))" and
    t: "detach_items r1 (take j (data (snd (nodes net ! i)))) = Inr (r, pre2)" and
    s: "detach_value r (snd (data (snd (nodes net ! i)) ! j)) = Inl e" by blast
  have "valid_pos net i j \<and> detach_reaches net i j = Some r \<and>
           detach_value r (value_at net i j) = Inl e"
    using i j n t s by (simp add: valid_pos_def detach_reaches_def value_at_def)
  then show ?thesis by blast
qed

text \<open>
  C4. At an attribute that holds the parameter object \<open>p\<close>, reached with the registry
  \<open>r\<close>: \<open>ValueError\<close> is raised when the name of \<open>p\<close> is a key of \<open>r\<close>; otherwise the
  loop goes on with \<open>p\<close> appended to \<open>r\<close> under its name, and in the result the attribute
  holds the name as a string and the registry maps the name to \<open>p\<close>. Whenever
  \<open>detach_parameters\<close> raises, some attribute holds a parameter whose name was a key of
  the registry when the loop reached it.
\<close>

theorem detach_parameter_attribute:
  "(valid_pos net i j \<and> value_at net i j = PParam p \<and> detach_reaches net i j = Some r \<longrightarrow>
      (param_name p \<in> fst ` set r \<longrightarrow>
         detach_parameters net = Inl (ValueError ''Attr param name duplicates global param name''))
    \<and> (param_name p \<notin> fst ` set r \<longrightarrow>
         detach_reaches net i (Suc j) = Some (r @ [(param_name p, p)])
         \<and> (detach_parameters net = Inr net' \<longrightarrow>
              value_at net' i j = PStr (param_name p)
              \<and> map_of (parameters net') (param_name p) = Some p)))
   \<and> (detach_parameters net = Inl e \<longrightarrow>
        (\<exists>i0 j0 p0 r0. valid_pos net i0 j0 \<and> value_at net i0 j0 = PParam p0
           \<and> detach_reaches net i0 j0 = Some r0 \<and> param_name p0 \<in> fst ` set r0))"
proof (intro conjI impI)
  assume h: "valid_pos net i j \<and> value_at net i j = PParam p \<and> detach_reaches net i j = Some r"
    and k: "param_name p \<in> fst ` set r"
  then have "detach_value r (value_at net i j)
      = Inl (ValueError ''Attr param name duplicates global param name'')"
    by (simp add: detach_value_cases)
  then show "detach_parameters net = Inl (ValueError ''Attr param name duplicates global param name'')"
    using detach_at_error h by blast
next
  assume h: "valid_pos net i j \<and> value_at net i j = PParam p \<and> detach_reaches net i j = Some r"
    and k: "param_name p \<notin> fst ` set r"
  then have step: "detach_value r (value_at net i j)
      = Inr (r @ [(param_name p, p)], PStr (param_name p))"
    by (simp add: detach_value_cases)
  show "detach_reaches net i (Suc j) = Some (r @ [(param_name p, p)])"
    using detach_at_next step h by blast
  assume ok: "detach_parameters net = Inr net'"
  from detach_at_result [OF _ ok, of i j] h step obtain more where
    v: "value_at net' i j = PStr (param_name p)" and
    m: "parameters net' = (r @ [(param_name p, p)]) @ more"
    by auto
  show "value_at net' i j = PStr (param_name p)" by (rule v)
  have "map_of r (param_name p) = None"
    using k by (simp add: map_of_eq_None_iff)
  then show "map_of (parameters net') (param_name p) = Some p"
    by (simp add: m map_add_def)
next
  assume "detach_parameters net = Inl e"
  from detach_error_position [OF this] obtain i0 j0 r0 where
    p0: "valid_pos net i0 j0" and r0: "detach_reaches net i0 j0 = Some r0" and
    s0: "detach_value r0 (value_at net i0 j0) = Inl e" by blast
  from s0 obtain p0' where "value_at net i0 j0 = PParam p0'" "param_name p0' \<in> fst ` set r0"
    by (auto simp: detach_value_cases split: pyval.splits if_splits)
  then show "\<exists>i0 j0 p0 r0. valid_pos net i0 j0 \<and> value_at net i0 j0 = PParam p0
           \<and> detach_reaches net i0 j0 = Some r0 \<and> param_name p0 \<in> fst ` set r0"
    using p0 r0 by blast
qed

lemma small_attached_detached: "detach_parameters small_attached = Inr small_network"
  by (simp add: detach_parameters_def small_attached_def small_network_def detach_value_def)

theorem detach_parameter_attribute_witness:
  "valid_pos small_attached 0 1
   \<and> value_at small_attached 0 1
       = PParam (PywrParameter ''flow_max'' (PDict [(''type'', PStr ''constant'')]))
   \<and> detach_reaches small_attached 0 1 = Some []
   \<and> detach_reaches small_attached 0 (Suc 1)
       = Some [(''flow_max'', PywrParameter ''flow_max'' (PDict [(''type'', PStr ''constant'')]))]
   \<and> detach_parameters small_attached = Inr small_network
   \<and> value_at small_network 0 1 = PStr ''flow_max''
   \<and> map_of (parameters small_network) ''flow_max''
       = Some (PywrParameter ''flow_max'' (PDict [(''type'', PStr ''constant'')]))
   \<and> valid_pos clashing_network 0 1
   \<and> detach_reaches clashing_network 0 1 = Some (parameters clashing_network)
   \<and> ''flow_max'' \<in> fst ` set (parameters clashing_network)
   \<and> detach_parameters clashing_network
       = Inl (ValueError ''Attr param name duplicates global param name'')
   \<and> (\<exists>i0 j0 p0 r0. valid_pos clashing_network i0 j0
         \<and> value_at clashing_network i0 j0 = PParam p0
         \<and> detach_reaches clashing_network i0 j0 = Some r0
         \<and> param_name p0 \<in> fst ` set r0)"
proof -
  let ?p = "PywrParameter ''flow_max'' (PDict [(''type'', PStr ''constant'')])"
  note ok = small_attached_detached
  have pos: "valid_pos small_attached 0 1" "valid_pos clashing_network 0 1"
    by (simp_all add: valid_pos_def small_attached_def clashing_network_def)
  have val: "value_at small_attached 0 1 = PParam ?p" "value_at clashing_network 0 1 = PParam ?p"
    by (simp_all add: value_at_def small_attached_def clashing_network_def)
  have reach: "detach_reaches small_attached 0 1 = Some []"
    "detach_reaches clashing_network 0 1 = Some (parameters clashing_network)"
    by (simp_all add: detach_reaches_def small_attached_def clashing_network_def
        detach_value_def)
  have keys: "''flow_max'' \<in> fst ` set (parameters clashing_network)"
    by (simp add: clashing_network_def small_network_def)
  have a: "detach_reaches small_attached 0 (Suc 1) = Some [(''flow_max'', ?p)]
           \<and> value_at small_network 0 1 = PStr ''flow_max''
           \<and> map_of (parameters small_network) ''flow_max'' = Some ?p"
    using detach_parameter_attribute
        [where net = small_attached and i = 0 and j = 1 and p = ?p and r = "[]"
          and net' = small_network]
      pos(1) val(1) reach(1) ok by simp
  have b: "detach_parameters clashing_network
             = Inl (ValueError ''Attr param name duplicates global param name'')"
    using detach_parameter_attribute
        [where net = clashing_network and i = 0 and j = 1 and p = ?p
          and r = "parameters clashing_network"]
      pos(2) val(2) reach(2) keys by simp
  have c: "\<exists>i0 j0 p0 r0. valid_pos clashing_network i0 j0
         \<and> value_at clashing_network i0 j0 = PParam p0
         \<and> detach_reaches clashing_network i0 j0 = Some r0
         \<and> param_name p0 \<in> fst ` set r0"
    using detach_parameter_attribute
        [where net = clashing_network
          and e = "ValueError ''Attr param name duplicates global param name''"] b
    by blast
  show ?thesis using pos val reach keys ok a b c by simp
qed

section \<open>attach_parameters followed by detach_parameters\<close>

lemma registry_ok_lookup:
  assumes "registry_ok reg" and "map_of reg s = Some p"
  shows "param_name p = s"
proof -
  have "(s, p) \<in> set reg" using assms(2) by (rule map_of_SomeD)
  then have "param_name (snd (s, p)) = fst (s, p)"
    using assms(1) unfolding registry_ok_def list_all_iff by blast
  then show ?thesis by simp
qed

lemma registry_ok_del: "registry_ok reg \<Longrightarrow> registry_ok (dict_del s reg)"
  by (auto simp: registry_ok_def dict_del_def list_all_iff distinct_map_filter)

lemma dict_del_split:
  assumes "distinct (map fst reg)" and "map_of reg s = Some p"
  shows "set reg = set (dict_del s reg) \<union> {(s, p)}"
proof (intro set_eqI iffI)
  fix x
  assume x: "x \<in> set reg"
  obtain k q where kq: "x = (k, q)" by (cases x)
  show "x \<in> set (dict_del s reg) \<union> {(s, p)}"
  proof (cases "k = s")
    case True
    have "map_of reg s = Some q"
      using map_of_is_SomeI [OF assms(1)] x kq True by simp
    then have "q = p" using assms(2) by simp
    then show ?thesis using kq True by simp
  next
    case False
    then show ?thesis using x kq by (simp add: dict_del_def)
  qed
next
  fix x
  assume "x \<in> set (dict_del s reg) \<union> {(s, p)}"
  moreover have "(s, p) \<in> set reg" using assms(2) by (rule map_of_SomeD)
  ultimately show "x \<in> set reg" by (auto simp: dict_del_def)
qed

lemma dict_del_keys: "fst ` set (dict_del s reg) = fst ` set reg - {s}"
  by (auto simp: dict_del_def)

lemma not_param_detached: "\<not> is_param v \<Longrightarrow> detached v = v"
  by (cases v) (simp_all add: detached_def is_param_def)

lemma not_param_held: "\<not> is_param v \<Longrightarrow> held_items ((a, v) # xs) = held_items xs"
  by (cases v) (simp_all add: is_param_def)

lemma attach_value_kept:
  assumes "\<not> is_param v" and "\<not> inline_definition a v"
    and "\<forall>s. v = PStr s \<longrightarrow> lower a \<in> set exclude \<or> map_of reg s = None"
  shows "attach_value reg nn a v = Inr (reg, v)"
proof (cases "lower a \<in> set exclude")
  case True
  then show ?thesis by (simp add: attach_value_def)
next
  case False
  show ?thesis
  proof (cases v)
    case (PStr s)
    then show ?thesis using assms(3) False by (simp add: attach_value_def)
  next
    case (PDict d)
    show ?thesis
    proof (cases "map_of d ''type''")
      case None
      then show ?thesis using False PDict by (simp add: attach_value_def)
    next
      case (Some ty)
      show ?thesis
      proof (cases "truthy ty")
        case False
        then show ?thesis using \<open>lower a \<notin> set exclude\<close> PDict Some
          by (simp add: attach_value_def)
      next
        case True
        then obtain t where "ty = PStr t" "str_in ''recorder'' (lower t)"
          using assms(2) \<open>lower a \<notin> set exclude\<close> PDict Some
          by (cases ty) (simp_all add: inline_definition_def)
        then show ?thesis using \<open>lower a \<notin> set exclude\<close> PDict Some True
          by (simp add: attach_value_def)
      qed
    qed
  qed (simp_all add: attach_value_def False)
qed

text \<open>
  One visit of \<open>attach_parameters\<close> on an attribute that holds no parameter and no inline
  definition: it returns, detaching the new value gives the old value back, and the entry
  taken from the registry is the one the attribute holds.
\<close>

lemma attach_value_clean:
  assumes reg: "registry_ok reg"
    and np: "\<not> is_param v"
    and ni: "\<not> inline_definition a v"
  shows "\<exists>r1 v1. attach_value reg nn a v = Inr (r1, v1) \<and> detached v1 = v \<and>
           registry_ok r1 \<and> set reg = set r1 \<union> set (held_items [(a, v1)]) \<and>
           distinct (map fst (r1 @ held_items [(a, v1)]))"
proof (cases "\<exists>s p. v = PStr s \<and> lower a \<notin> set exclude \<and> map_of reg s = Some p")
  case False
  then have "attach_value reg nn a v = Inr (reg, v)"
    using np ni by (intro attach_value_kept) auto
  moreover have "detached v = v" using np by (rule not_param_detached)
  moreover have "held_items [(a, v)] = []" using not_param_held [OF np, of a "[]"] by simp
  moreover have "distinct (map fst reg)" using reg by (simp add: registry_ok_def)
  ultimately show ?thesis using reg by simp
next
  case True
  then obtain s p where v: "v = PStr s" and ne: "lower a \<notin> set exclude"
    and m: "map_of reg s = Some p" by blast
  have st: "attach_value reg nn a v = Inr (dict_del s reg, PParam p)"
    using ne v m by (simp add: attach_value_def)
  have nm: "param_name p = s" using registry_ok_lookup [OF reg m] .
  have d: "distinct (map fst reg)" using reg by (simp add: registry_ok_def)
  have h: "held_items [(a, PParam p)] = [(s, p)]" using nm by simp
  have "detached (PParam p) = v" using nm v by (simp add: detached_def)
  moreover have "registry_ok (dict_del s reg)" using reg by (rule registry_ok_del)
  moreover have "set reg = set (dict_del s reg) \<union> set [(s, p)]"
    using dict_del_split [OF d m] by simp
  moreover have "distinct (map fst (dict_del s reg))"
    using d by (simp add: dict_del_def distinct_map_filter)
  moreover have "s \<notin> fst ` set (dict_del s reg)" by (simp add: dict_del_keys)
  ultimately show ?thesis using st h by simp
qed

lemma attach_items_clean:
  assumes "registry_ok reg"
    and "list_all (\<lambda>av. \<not> is_param (snd av)) xs"
    and "list_all (\<lambda>av. \<not> inline_definition (fst av) (snd av)) xs"
  shows "\<exists>r1 xs1. attach_items reg nn xs = Inr (r1, xs1) \<and>
           map (\<lambda>av. (fst av, detached (snd av))) xs1 = xs \<and>
           registry_ok r1 \<and> set reg = set r1 \<union> set (held_items xs1) \<and>
           distinct (map fst (r1 @ held_items xs1))"
  using assms
proof (induction xs arbitrary: reg)
  case Nil
  then show ?case by (simp add: registry_ok_def)
next
  case (Cons x xs)
  obtain a v where x: "x = (a, v)" by (cases x)
  from Cons.prems x have np: "\<not> is_param v" and ni: "\<not> inline_definition a v"
    and nps: "list_all (\<lambda>av. \<not> is_param (snd av)) xs"
    and nis: "list_all (\<lambda>av. \<not> inline_definition (fst av) (snd av)) xs"
    by simp_all
  from attach_value_clean [OF Cons.prems(1) np ni, of nn] obtain r1 v1 where
    st: "attach_value reg nn a v = Inr (r1, v1)" and dv: "detached v1 = v" and
    ok1: "registry_ok r1" and s1: "set reg = set r1 \<union> set (held_items [(a, v1)])" and
    d1: "distinct (map fst (r1 @ held_items [(a, v1)]))"
    by blast
  from Cons.IH [OF ok1 nps nis] obtain r2 xs1 where
    rs: "attach_items r1 nn xs = Inr (r2, xs1)" and
    mp: "map (\<lambda>av. (fst av, detached (snd av))) xs1 = xs" and
    ok2: "registry_ok r2" and s2: "set r1 = set r2 \<union> set (held_items xs1)" and
    d2: "distinct (map fst (r2 @ held_items xs1))"
    by blast
  have run: "attach_items reg nn (x # xs) = Inr (r2, (a, v1) # xs1)"
    using st rs x by simp
  have hd: "held_items ((a, v1) # xs1) = held_items [(a, v1)] @ held_items xs1"
    by (cases v1) simp_all
  have keys1: "fst ` set r1 = fst ` set r2 \<union> fst ` set (held_items xs1)"
    using s2 by (simp add: image_Un)
  have "set reg = set r2 \<union> set (held_items ((a, v1) # xs1))"
    using s1 s2 hd by auto
  moreover have "distinct (map fst (r2 @ held_items ((a, v1) # xs1)))"
    using d1 d2 keys1 unfolding hd by (cases v1) auto
  ultimately show ?case using run dv mp ok2 x by simp
qed

lemma attach_nodes_clean:
  assumes "registry_ok reg" and "no_params_held ns" and "no_inline_definitions ns"
  shows "\<exists>r1 ns1. attach_nodes reg ns = Inr (r1, ns1) \<and>
           map (\<lambda>kn. (fst kn, (snd kn)\<lparr>data :=
                  map (\<lambda>av. (fst av, detached (snd av))) (data (snd kn))\<rparr>)) ns1 = ns \<and>
           registry_ok r1 \<and> set reg = set r1 \<union> set (held_nodes ns1) \<and>
           distinct (map fst (r1 @ held_nodes ns1))"
  using assms
proof (induction ns arbitrary: reg)
  case Nil
  then show ?case by (simp add: registry_ok_def)
next
  case (Cons x ns)
  obtain k nd where x: "x = (k, nd)" by (cases x)
  from Cons.prems x have
    np: "list_all (\<lambda>av. \<not> is_param (snd av)) (data nd)" and
    ni: "list_all (\<lambda>av. \<not> inline_definition (fst av) (snd av)) (data nd)" and
    nps: "no_params_held ns" and nis: "no_inline_definitions ns"
    by (simp_all add: no_params_held_def no_inline_definitions_def)
  from attach_items_clean [OF Cons.prems(1) np ni, of "name nd"] obtain r1 d1 where
    st: "attach_items reg (name nd) (data nd) = Inr (r1, d1)" and
    mp1: "map (\<lambda>av. (fst av, detached (snd av))) d1 = data nd" and
    ok1: "registry_ok r1" and s1: "set reg = set r1 \<union> set (held_items d1)" and
    dd1: "distinct (map fst (r1 @ held_items d1))"
    by blast
  from Cons.IH [OF ok1 nps nis] obtain r2 ns1 where
    rs: "attach_nodes r1 ns = Inr (r2, ns1)" and
    mp: "map (\<lambda>kn. (fst kn, (snd kn)\<lparr>data :=
                  map (\<lambda>av. (fst av, detached (snd av))) (data (snd kn))\<rparr>)) ns1 = ns" and
    ok2: "registry_ok r2" and s2: "set r1 = set r2 \<union> set (held_nodes ns1)" and
    d2: "distinct (map fst (r2 @ held_nodes ns1))"
    by blast
  have run: "attach_nodes reg (x # ns) = Inr (r2, (k, nd\<lparr>data := d1\<rparr>) # ns1)"
    using st rs x by simp
  have keys1: "fst ` set r1 = fst ` set r2 \<union> fst ` set (held_nodes ns1)"
    using s2 by (simp add: image_Un)
  have "set reg = set r2 \<union> set (held_nodes ((k, nd\<lparr>data := d1\<rparr>) # ns1))"
    using s1 s2 by auto
  moreover have "distinct (map fst (r2 @ held_nodes ((k, nd\<lparr>data := d1\<rparr>) # ns1)))"
    using dd1 d2 keys1 by auto
  ultimately show ?case using run mp1 mp ok2 x by (simp add: image_Un)
qed

lemma small_network_parse_like:
  "registry_ok (parameters small_network) \<and> no_params_held (nodes small_network)
   \<and> no_inline_definitions (nodes small_network)"
  by (simp add: registry_ok_def no_params_held_def no_inline_definitions_def
      small_network_def is_param_def inline_definition_def)

text \<open>
  C1. The claim as amended. For a network as the parser builds it (the keys of the
  registry are distinct and are the names of their parameters, no attribute holds a
  parameter object) in which no attribute is an inline definition, \<open>attach_parameters\<close>
  followed by \<open>detach_parameters\<close> returns, the nodes and their attributes are what they
  were, the registry has the same entries (the order of insertion may differ), and nothing
  else of the network has changed.
\<close>

theorem attach_detach_round_trip:
  assumes reg: "registry_ok (parameters net)"
    and np: "no_params_held (nodes net)"
    and ni: "no_inline_definitions (nodes net)"
  shows "\<exists>net2. attach_then_detach net = Inr net2
           \<and> nodes net2 = nodes net
           \<and> set (parameters net2) = set (parameters net)
           \<and> distinct (map fst (parameters net2))
           \<and> map_of (parameters net2) = map_of (parameters net)
           \<and> net2 = net\<lparr>parameters := parameters net2\<rparr>"
proof -
  from attach_nodes_clean [OF reg np ni] obtain r1 ns1 where
    run: "attach_nodes (parameters net) (nodes net) = Inr (r1, ns1)" and
    inv: "map (\<lambda>kn. (fst kn, (snd kn)\<lparr>data :=
                  map (\<lambda>av. (fst av, detached (snd av))) (data (snd kn))\<rparr>)) ns1 = nodes net" and
    s1: "set (parameters net) = set r1 \<union> set (held_nodes ns1)" and
    d1: "distinct (map fst (r1 @ held_nodes ns1))"
    by blast
  let ?net1 = "net\<lparr>nodes := ns1, parameters := r1\<rparr>"
  let ?net2 = "net\<lparr>parameters := r1 @ held_nodes ns1\<rparr>"
  have att: "attach_parameters net = Inr ?net1"
    using run by (simp add: attach_parameters_def)
  have free: "distinct (map fst (held_nodes ns1))
              \<and> fst ` set (held_nodes ns1) \<inter> fst ` set r1 = {}"
    using d1 by auto
  have "detach_nodes r1 ns1 = Inr (r1 @ held_nodes ns1, nodes net)"
    using free inv by (simp add: detach_nodes_closed)
  then have det: "detach_parameters ?net1 = Inr ?net2"
    by (simp add: detach_parameters_def)
  have d0: "distinct (map fst (parameters net))" using reg by (simp add: registry_ok_def)
  have seteq: "set (r1 @ held_nodes ns1) = set (parameters net)" using s1 by simp
  have "map_of (r1 @ held_nodes ns1) = map_of (parameters net)"
    using map_of_inject_set [OF d1 d0] seteq by blast
  then have "attach_then_detach net = Inr ?net2
           \<and> nodes ?net2 = nodes net
           \<and> set (parameters ?net2) = set (parameters net)
           \<and> distinct (map fst (parameters ?net2))
           \<and> map_of (parameters ?net2) = map_of (parameters net)
           \<and> ?net2 = net\<lparr>parameters := parameters ?net2\<rparr>"
    using att det seteq d1 by (simp add: attach_then_detach_def)
  then show ?thesis by blast
qed

theorem attach_detach_round_trip_witness:
  "registry_ok (parameters small_network)
   \<and> no_params_held (nodes small_network)
   \<and> no_inline_definitions (nodes small_network)
   \<and> attach_then_detach small_network = Inr small_network"
proof -
  note h = small_network_parse_like
  have run: "attach_then_detach small_network = Inr small_network"
    by (simp add: attach_then_detach_def small_network_attached small_attached_detached)
  from attach_detach_round_trip [of small_network] h obtain net2 where
    "attach_then_detach small_network = Inr net2" "nodes net2 = nodes small_network"
    by blast
  then show ?thesis using h run by simp
qed

text \<open>
  The claim as stated fails on \<open>inline_network\<close>, a network as the parser builds it with
  one inline definition and no name collision: both operations return, the attribute
  that held the dict ends as a string, and the registry, empty before, has an entry.
\<close>

theorem attach_detach_inline_counterexample:
  "registry_ok (parameters inline_network)
   \<and> no_params_held (nodes inline_network)
   \<and> attach_then_detach inline_network = Inr inline_detached
   \<and> value_at inline_network 0 1
       = PDict [(''type'', PStr ''monthlyprofileparameter''), (''values'', PList [PNum 1, PNum 2])]
   \<and> value_at inline_detached 0 1 = PStr ''__Reservoir1__:max_flow''
   \<and> parameters inline_network = []
   \<and> parameters inline_detached = [(''__Reservoir1__:max_flow'', inline_parameter)]"
  by (simp add: registry_ok_def no_params_held_def is_param_def attach_then_detach_def
      inline_network_attached)
   (simp add: inline_network_def inline_attached_def inline_detached_def inline_data_def
      inline_parameter_def detach_parameters_def detach_value_def value_at_def)

section \<open>add_parameter_references\<close>

lemma split_marker_sound:
  "split_marker acc cs = Some (n, a) \<Longrightarrow> rev acc @ cs = n @ ''__:'' @ a"
proof (induction cs arbitrary: acc)
  case Nil
  then show ?case by simp
next
  case (Cons c cs)
  show ?case
  proof (cases "take 3 (c # cs) = ''__:''")
    case True
    then have na: "n = rev acc" "a = drop 3 (c # cs)" using Cons.prems by simp_all
    from True have c: "c = CHR ''_''" and t2: "take 2 cs = ''_:''" by simp_all
    have "take 2 cs @ drop 2 cs = cs" by (rule append_take_drop_id)
    then have e: "''_:'' @ drop 2 cs = cs" by (simp only: t2)
    show ?thesis using na c e by simp
  next
    case False
    then have "split_marker (c # acc) cs = Some (n, a)"
      using Cons.prems by (auto split: if_splits)
    from Cons.IH [OF this] show ?thesis by simp
  qed
qed

lemma parse_reference_key_format: "parses_reference_keys parse_reference_key"
  unfolding parses_reference_keys_def
proof (intro allI impI)
  fix key node_name attr
  assume p: "parse_reference_key key = Some (node_name, attr)"
  then have t: "take 2 key = ''__''" and s: "split_marker [] (drop 2 key) = Some (node_name, attr)"
    by (simp_all add: parse_reference_key_def split: if_splits)
  have "drop 2 key = node_name @ ''__:'' @ attr" using split_marker_sound [OF s] by simp
  moreover have "key = take 2 key @ drop 2 key" by (rule append_take_drop_id [symmetric])
  ultimately show "key = canonical_name node_name attr"
    using t by (simp add: canonical_name_def)
qed

lemma parse_example:
  "parse_reference_key ''__Reservoir1__:max_flow'' = Some (''Reservoir1'', ''max_flow'')"
  "parse_reference_key ''flow_max'' = None"
  by (simp_all add: parse_reference_key_def)

lemma reference_run:
  "add_parameter_references parse_reference_key reference_network = reference_network_linked"
  by (simp add: add_parameter_references_def add_component_references_def add_reference_def
      reference_network_def reference_network_linked_def parse_reference_key_def attrs_def)

lemma dict_set_present_map:
  assumes "map_of d k = Some v0" and "f (k, v) = f (k, v0)"
  shows "map f (dict_set k v d) = map f d"
  using assms
proof (induction d)
  case Nil
  then show ?case by simp
next
  case (Cons x d)
  obtain k' v' where x: "x = (k', v')" by (cases x)
  show ?case using Cons x by (cases "k' = k") simp_all
qed

lemma in_keys_map_of: "k \<in> fst ` set d \<longleftrightarrow> map_of d k \<noteq> None"
  by (simp add: map_of_eq_None_iff)

text \<open>One pass of the loop body of \<open>__add_component_references\<close>.\<close>

lemma add_reference_names:
  "map (\<lambda>kn. (fst kn, name (snd kn))) (add_reference prk nds k)
     = map (\<lambda>kn. (fst kn, name (snd kn))) nds"
proof (cases "prk k")
  case None
  then show ?thesis by (simp add: add_reference_def)
next
  case (Some na)
  obtain n a where na: "na = (n, a)" by (cases na)
  show ?thesis
  proof (cases "map_of nds n")
    case None
    then show ?thesis using Some na by (simp add: add_reference_def)
  next
    case (Some nd)
    have "map (\<lambda>kn. (fst kn, name (snd kn)))
            (dict_set n (nd\<lparr>data := dict_set a (PStr k) (data nd)\<rparr>) nds)
          = map (\<lambda>kn. (fst kn, name (snd kn))) nds"
      by (rule dict_set_present_map [OF Some]) simp
    then show ?thesis using \<open>prk k = Some na\<close> na Some by (simp add: add_reference_def)
  qed
qed

lemma add_reference_keys: "fst ` set (add_reference prk nds k) = fst ` set nds"
proof -
  have "map fst (map (\<lambda>kn. (fst kn, name (snd kn))) (add_reference prk nds k))
        = map fst (map (\<lambda>kn. (fst kn, name (snd kn))) nds)"
    by (simp only: add_reference_names)
  then have "map fst (add_reference prk nds k) = map fst nds" by (simp add: comp_def)
  then have "set (map fst (add_reference prk nds k)) = set (map fst nds)" by simp
  then show ?thesis by simp
qed

lemma node_attr_add_reference:
  "node_attr (add_reference prk nds k) n a =
     (if n \<in> fst ` set nds \<and> node_attr nds n a = None \<and> prk k = Some (n, a)
      then Some (PStr k) else node_attr nds n a)"
proof (cases "prk k")
  case None
  then show ?thesis by (simp add: add_reference_def)
next
  case (Some na)
  obtain n0 a0 where na: "na = (n0, a0)" by (cases na)
  show ?thesis
  proof (cases "map_of nds n0")
    case None
    then have "add_reference prk nds k = nds" using Some na by (simp add: add_reference_def)
    moreover have "n0 \<notin> fst ` set nds" using None by (simp add: in_keys_map_of)
    ultimately show ?thesis using Some na by auto
  next
    case nd: (Some nd)
    show ?thesis
    proof (cases "a0 \<in> set (attrs nd)")
      case True
      then have same: "add_reference prk nds k = nds"
        using Some na nd by (simp add: add_reference_def)
      have "map_of (data nd) a0 \<noteq> None"
        using True in_keys_map_of [of a0 "data nd"] by (simp add: attrs_def)
      then have "node_attr nds n0 a0 \<noteq> None" using nd by (simp add: node_attr_def)
      then show ?thesis using same Some na by auto
    next
      case False
      then have step: "add_reference prk nds k
          = dict_set n0 (nd\<lparr>data := dict_set a0 (PStr k) (data nd)\<rparr>) nds"
        using Some na nd by (simp add: add_reference_def)
      have none: "map_of (data nd) a0 = None"
        using False by (simp add: attrs_def map_of_eq_None_iff)
      have in_keys: "n0 \<in> fst ` set nds" using nd by (simp add: in_keys_map_of)
      show ?thesis
        using Some na nd none in_keys
        by (auto simp: step node_attr_def map_of_dict_set)
    qed
  qed
qed

lemma add_references_names:
  "map (\<lambda>kn. (fst kn, name (snd kn))) (foldl (add_reference prk) nds ks)
     = map (\<lambda>kn. (fst kn, name (snd kn))) nds"
  by (induction ks arbitrary: nds) (simp_all add: add_reference_names)

lemma add_references_keys: "fst ` set (foldl (add_reference prk) nds ks) = fst ` set nds"
  by (induction ks arbitrary: nds) (simp_all add: add_reference_keys)

lemma node_attr_add_references:
  assumes fmt: "parses_reference_keys prk"
  shows "node_attr (foldl (add_reference prk) nds ks) n a =
     (case node_attr nds n a of
        Some v \<Rightarrow> Some v
      | None \<Rightarrow>
          if n \<in> fst ` set nds \<and> canonical_name n a \<in> set ks
             \<and> prk (canonical_name n a) = Some (n, a)
          then Some (PStr (canonical_name n a)) else None)"
proof (induction ks arbitrary: nds)
  case Nil
  show ?case by (simp split: option.splits)
next
  case (Cons k ks)
  have key: "prk k = Some (n, a) \<Longrightarrow> k = canonical_name n a"
    using fmt by (simp add: parses_reference_keys_def)
  show ?case
  proof (cases "node_attr nds n a")
    case (Some v)
    then have "node_attr (add_reference prk nds k) n a = Some v"
      by (simp add: node_attr_add_reference)
    then show ?thesis using Some by (simp add: Cons.IH)
  next
    case None
    show ?thesis
    proof (cases "n \<in> fst ` set nds \<and> prk k = Some (n, a)")
      case True
      then have "node_attr (add_reference prk nds k) n a = Some (PStr k)"
        using None by (simp add: node_attr_add_reference)
      then show ?thesis using None True key by (simp add: Cons.IH)
    next
      case False
      then have "node_attr (add_reference prk nds k) n a = None"
        using None by (auto simp: node_attr_add_reference)
      then show ?thesis
        using None False by (auto simp: Cons.IH add_reference_keys)
    qed
  qed
qed

lemma add_reference_settled:
  assumes "\<And>n a. prk k = Some (n, a) \<Longrightarrow> n \<notin> fst ` set nds \<or> node_attr nds n a \<noteq> None"
  shows "add_reference prk nds k = nds"
proof (cases "prk k")
  case None
  then show ?thesis by (simp add: add_reference_def)
next
  case (Some na)
  obtain n a where na: "na = (n, a)" by (cases na)
  from assms [of n a] Some na
  consider "n \<notin> fst ` set nds" | "node_attr nds n a \<noteq> None" by auto
  then show ?thesis
  proof cases
    case 1
    then have "map_of nds n = None" by (simp add: in_keys_map_of)
    then show ?thesis using Some na by (simp add: add_reference_def)
  next
    case 2
    then obtain nd where nd: "map_of nds n = Some nd" and "map_of (data nd) a \<noteq> None"
      by (auto simp: node_attr_def split: option.splits)
    then have "a \<in> set (attrs nd)"
      using in_keys_map_of [of a "data nd"] by (simp add: attrs_def)
    then show ?thesis using Some na nd by (simp add: add_reference_def)
  qed
qed

lemma node_attr_kept:
  "node_attr nds n a \<noteq> None \<Longrightarrow>
     node_attr (foldl (add_reference prk) nds ks) n a = node_attr nds n a"
  by (induction ks arbitrary: nds) (auto simp: node_attr_add_reference)

lemma node_attr_set_by_key:
  "k \<in> set ks \<Longrightarrow> prk k = Some (n, a) \<Longrightarrow> n \<in> fst ` set nds \<Longrightarrow>
     node_attr (foldl (add_reference prk) nds ks) n a \<noteq> None"
proof (induction ks arbitrary: nds)
  case Nil
  then show ?case by simp
next
  case (Cons k0 ks)
  show ?case
  proof (cases "k = k0")
    case True
    have "node_attr (add_reference prk nds k0) n a \<noteq> None"
      using Cons.prems True by (auto simp: node_attr_add_reference)
    then show ?thesis using node_attr_kept [of "add_reference prk nds k0" n a prk ks] by simp
  next
    case False
    then have "k \<in> set ks" using Cons.prems by simp
    moreover have "n \<in> fst ` set (add_reference prk nds k0)"
      using Cons.prems by (simp add: add_reference_keys)
    ultimately show ?thesis using Cons.IH Cons.prems(2) by simp
  qed
qed

lemma add_references_settled:
  "(\<And>k n a. k \<in> set ks \<Longrightarrow> prk k = Some (n, a) \<Longrightarrow>
       n \<notin> fst ` set nds \<or> node_attr nds n a \<noteq> None) \<Longrightarrow>
   foldl (add_reference prk) nds ks = nds"
proof (induction ks)
  case Nil
  show ?case by simp
next
  case (Cons k ks)
  have "add_reference prk nds k = nds"
  proof (rule add_reference_settled)
    fix n a
    assume "prk k = Some (n, a)"
    then show "n \<notin> fst ` set nds \<or> node_attr nds n a \<noteq> None"
      using Cons.prems [of k n a] by simp
  qed
  moreover have "foldl (add_reference prk) nds ks = nds"
  proof (rule Cons.IH)
    fix k' n a
    assume "k' \<in> set ks" and "prk k' = Some (n, a)"
    then show "n \<notin> fst ` set nds \<or> node_attr nds n a \<noteq> None"
      using Cons.prems [of k' n a] by simp
  qed
  ultimately show ?case by simp
qed

lemma add_references_idem:
  "foldl (add_reference prk) (foldl (add_reference prk) nds ks) ks
     = foldl (add_reference prk) nds ks"
proof (rule add_references_settled)
  fix k n a
  assume k: "k \<in> set ks" and p: "prk k = Some (n, a)"
  show "n \<notin> fst ` set (foldl (add_reference prk) nds ks)
        \<or> node_attr (foldl (add_reference prk) nds ks) n a \<noteq> None"
  proof (cases "n \<in> fst ` set nds")
    case True
    then show ?thesis
      using node_attr_set_by_key [where k = k and ks = ks and prk = prk and nds = nds] k p
      by simp
  next
    case False
    then show ?thesis by (simp add: add_references_keys)
  qed
qed

text \<open>
  C5. For a \<open>parse_reference_key\<close> that accepts only reference keys
  \<open>"__<nodename>__:<attrname>"\<close> and returns their two parts,
  \<open>add_parameter_references\<close> leaves the registry and everything but the node
  attributes as they were, keeps the nodes and their names, and gives attribute \<open>a\<close> of
  node \<open>n\<close> this value: the value it had when it was set; otherwise the reference key of
  \<open>(n, a)\<close> as a string, when the node exists and that key is a name of the registry that
  the parser accepts; otherwise none. So names that are not in the format, names of
  nodes that do not exist and names of attributes that are set change nothing. A second
  invocation changes nothing.
\<close>

theorem add_parameter_references_spec:
  assumes fmt: "parses_reference_keys prk"
  shows "parameters (add_parameter_references prk net) = parameters net
       \<and> add_parameter_references prk net
           = net\<lparr>nodes := nodes (add_parameter_references prk net)\<rparr>
       \<and> map (\<lambda>kn. (fst kn, name (snd kn))) (nodes (add_parameter_references prk net))
           = map (\<lambda>kn. (fst kn, name (snd kn))) (nodes net)
       \<and> node_attr (nodes (add_parameter_references prk net)) n a =
           (case node_attr (nodes net) n a of
              Some v \<Rightarrow> Some v
            | None \<Rightarrow>
                if n \<in> fst ` set (nodes net)
                   \<and> canonical_name n a \<in> fst ` set (parameters net)
                   \<and> prk (canonical_name n a) = Some (n, a)
                then Some (PStr (canonical_name n a)) else None)
       \<and> add_parameter_references prk (add_parameter_references prk net)
           = add_parameter_references prk net"
proof -
  have run: "add_parameter_references prk net
      = net\<lparr>nodes := foldl (add_reference prk) (nodes net) (map fst (parameters net))\<rparr>"
    by (simp add: add_parameter_references_def add_component_references_def)
  have again: "add_parameter_references prk (add_parameter_references prk net)
      = add_parameter_references prk net"
    unfolding run
    by (simp add: add_parameter_references_def add_component_references_def add_references_idem)
  have attr: "node_attr (nodes (add_parameter_references prk net)) n a =
           (case node_attr (nodes net) n a of
              Some v \<Rightarrow> Some v
            | None \<Rightarrow>
                if n \<in> fst ` set (nodes net)
                   \<and> canonical_name n a \<in> fst ` set (parameters net)
                   \<and> prk (canonical_name n a) = Some (n, a)
                then Some (PStr (canonical_name n a)) else None)"
    unfolding run by (auto simp: node_attr_add_references [OF fmt] split: option.splits)
  have names: "map (\<lambda>kn. (fst kn, name (snd kn))) (nodes (add_parameter_references prk net))
           = map (\<lambda>kn. (fst kn, name (snd kn))) (nodes net)"
    unfolding run by (simp add: add_references_names)
  have frame: "parameters (add_parameter_references prk net) = parameters net
       \<and> add_parameter_references prk net
           = net\<lparr>nodes := nodes (add_parameter_references prk net)\<rparr>"
    unfolding run by simp
  show ?thesis
    using frame names attr again by (intro conjI) simp_all
qed

theorem add_parameter_references_spec_witness:
  "parses_reference_keys parse_reference_key
   \<and> node_attr (nodes reference_network) ''Reservoir1'' ''max_flow'' = None
   \<and> parse_reference_key ''__Reservoir1__:max_flow'' = Some (''Reservoir1'', ''max_flow'')
   \<and> node_attr (nodes (add_parameter_references parse_reference_key reference_network))
        ''Reservoir1'' ''max_flow'' = Some (PStr ''__Reservoir1__:max_flow'')
   \<and> node_attr (nodes (add_parameter_references parse_reference_key reference_network))
        ''Reservoir1'' ''cost'' = Some (PNum 3)
   \<and> add_parameter_references parse_reference_key reference_network = reference_network_linked
   \<and> add_parameter_references parse_reference_key reference_network_linked
       = reference_network_linked"
proof -
  note fmt = parse_reference_key_format
  note run = reference_run
  have cn: "canonical_name ''Reservoir1'' ''max_flow'' = ''__Reservoir1__:max_flow''"
    "canonical_name ''Reservoir1'' ''cost'' = ''__Reservoir1__:cost''"
    by (simp_all add: canonical_name_def)
  have pre: "node_attr (nodes reference_network) ''Reservoir1'' ''max_flow'' = None"
    "node_attr (nodes reference_network) ''Reservoir1'' ''cost'' = Some (PNum 3)"
    "''Reservoir1'' \<in> fst ` set (nodes reference_network)"
    "''__Reservoir1__:max_flow'' \<in> fst ` set (parameters reference_network)"
    by (simp_all add: node_attr_def reference_network_def)
  have a: "node_attr (nodes (add_parameter_references parse_reference_key reference_network))
        ''Reservoir1'' ''max_flow'' = Some (PStr ''__Reservoir1__:max_flow'')"
    using add_parameter_references_spec
        [OF fmt, where net = reference_network and n = "''Reservoir1''" and a = "''max_flow''"]
      cn pre parse_example by simp
  have b: "node_attr (nodes (add_parameter_references parse_reference_key reference_network))
        ''Reservoir1'' ''cost'' = Some (PNum 3)"
    using add_parameter_references_spec
        [OF fmt, where net = reference_network and n = "''Reservoir1''" and a = "''cost''"]
      pre by simp
  have c: "add_parameter_references parse_reference_key reference_network_linked
       = reference_network_linked"
    using add_parameter_references_spec [OF fmt, where net = reference_network] run by simp
  show ?thesis using fmt pre(1) parse_example(1) a b c run by simp
qed

section \<open>as_dict\<close>

lemma as_dict_key_set:
  "fst ` set (as_dict ex net) =
     {''metadata'', ''timestepper'', ''nodes'', ''edges''}
       \<union> (if parameters net = [] then {} else {''parameters''})
       \<union> (if recorders net = [] then {} else {''recorders''})
       \<union> (if scenarios net = [] then {} else {''scenarios''})
       \<union> (if tables net = [] then {} else {''tables''})"
  by (auto simp: as_dict_def Let_def keys_dict_set)

lemma as_dict_parameters:
  "map_of (as_dict ex net) ''parameters'' =
     (if parameters net = [] then None
      else Some (PDict (map (\<lambda>kv. (fst kv, parameter_as_dict ex (snd kv))) (parameters net))))"
  by (simp add: as_dict_def Let_def map_of_dict_set)

lemma as_dict_recorders:
  "map_of (as_dict ex net) ''recorders'' =
     (if recorders net = [] then None
      else Some (PDict (map (\<lambda>kv. (fst kv, recorder_as_dict ex (snd kv))) (recorders net))))"
  by (simp add: as_dict_def Let_def map_of_dict_set)

lemma as_dict_scenarios:
  "map_of (as_dict ex net) ''scenarios'' =
     (if scenarios net = [] then None
      else Some (PList (map (blob_as_dict ex) (scenarios net))))"
  by (simp add: as_dict_def Let_def map_of_dict_set)

lemma as_dict_tables:
  "map_of (as_dict ex net) ''tables'' =
     (if tables net = [] then None
      else Some (PDict (map (\<lambda>kv. (fst kv, blob_as_dict ex (snd kv))) (tables net))))"
  by (simp add: as_dict_def Let_def map_of_dict_set)

text \<open>
  C7. The mapping returned by \<open>as_dict\<close> has the keys \<open>metadata\<close>, \<open>timestepper\<close>,
  \<open>nodes\<close> and \<open>edges\<close> for every network, and no keys but these and the four optional
  ones; each of \<open>parameters\<close>, \<open>recorders\<close>, \<open>scenarios\<close> and \<open>tables\<close> is a key exactly
  when its collection is not empty, and then the length of the entry is the size of the
  collection.
\<close>

theorem as_dict_keys:
  "fst ` set (as_dict ex net) =
     {''metadata'', ''timestepper'', ''nodes'', ''edges''}
       \<union> (if parameters net = [] then {} else {''parameters''})
       \<union> (if recorders net = [] then {} else {''recorders''})
       \<union> (if scenarios net = [] then {} else {''scenarios''})
       \<union> (if tables net = [] then {} else {''tables''})
   \<and> opt_len (map_of (as_dict ex net) ''parameters'') =
       (if parameters net = [] then None else Some (length (parameters net)))
   \<and> opt_len (map_of (as_dict ex net) ''recorders'') =
       (if recorders net = [] then None else Some (length (recorders net)))
   \<and> opt_len (map_of (as_dict ex net) ''scenarios'') =
       (if scenarios net = [] then None else Some (length (scenarios net)))
   \<and> opt_len (map_of (as_dict ex net) ''tables'') =
       (if tables net = [] then None else Some (length (tables net)))"
  by (simp add: as_dict_key_set as_dict_parameters as_dict_recorders as_dict_scenarios
      as_dict_tables opt_len_def)

section \<open>duplicate_edges\<close>

lemma distinct_counter_fold:
  "distinct (map fst c) \<Longrightarrow> distinct (map fst (foldl counter_add c xs))"
  by (induction xs arbitrary: c)
    (auto simp: counter_add_def distinct_dict_set split: option.splits)

lemma map_of_counter_fold:
  "map_of (foldl counter_add c xs) k =
     (if k \<in> set xs \<or> map_of c k \<noteq> None
      then Some (count_list xs k + (case map_of c k of None \<Rightarrow> 0 | Some n \<Rightarrow> n))
      else None)"
  by (induction xs arbitrary: c)
    (auto simp: counter_add_def map_of_dict_set split: option.splits)

lemma map_of_Counter:
  "map_of (Counter xs) k = (if k \<in> set xs then Some (count_list xs k) else None)"
  by (simp add: Counter_def map_of_counter_fold)

lemma map_of_filter_values:
  "distinct (map fst xs) \<Longrightarrow>
     map_of (filter (\<lambda>kv. Q (snd kv)) xs) k =
       (case map_of xs k of None \<Rightarrow> None | Some v \<Rightarrow> if Q v then Some v else None)"
proof (induction xs)
  case Nil
  show ?case by simp
next
  case (Cons x xs)
  obtain k' v' where x: "x = (k', v')" by (cases x)
  have "map_of xs k' = None" using Cons.prems x by (simp add: map_of_eq_None_iff)
  then show ?case using Cons x by (auto split: option.splits)
qed

lemma unpack_edges_pairs:
  "unpack_edges es = Inr ps \<longleftrightarrow> es = map (\<lambda>p. [fst p, snd p]) ps"
proof (induction es arbitrary: ps)
  case Nil
  show ?case by auto
next
  case (Cons e es)
  show ?case
  proof (cases "unpack_edge e")
    case (Inl err)
    then have "\<forall>a b. e \<noteq> [a, b]" by (cases e rule: unpack_edge.cases) auto
    then show ?thesis using Inl by (cases ps) auto
  next
    case (Inr p)
    then have e: "e = [fst p, snd p]" by (cases e rule: unpack_edge.cases) auto
    show ?thesis
    proof (cases "unpack_edges es")
      case (Inl err)
      then have "\<forall>qs. es \<noteq> map (\<lambda>p. [fst p, snd p]) qs" using Cons.IH by auto
      then show ?thesis using Inl \<open>unpack_edge e = Inr p\<close> by (cases ps) auto
    next
      case right: (Inr qs)
      then have "es = map (\<lambda>p. [fst p, snd p]) qs" using Cons.IH by simp
      moreover have "inj (\<lambda>p::string \<times> string. [fst p, snd p])"
        by (auto simp: inj_def prod_eq_iff)
      ultimately show ?thesis
        using right \<open>unpack_edge e = Inr p\<close> e
        by (cases ps) (auto simp: prod_eq_iff inj_map_eq_map [where f = "\<lambda>p. [fst p, snd p]"])
    qed
  qed
qed

text \<open>
  On a list of edges of two names each, \<open>duplicate_edges\<close> returns the mapping from every
  edge that occurs more than once to the number of its occurrences.
\<close>

lemma duplicate_edges_pairs:
  assumes "edges net = map (\<lambda>p. [fst p, snd p]) ps"
  shows "\<exists>r. duplicate_edges net = Inr r \<and> distinct (map fst r) \<and>
           (\<forall>e. map_of r e = (if count_list ps e > 1 then Some (count_list ps e) else None))"
proof -
  have u: "unpack_edges (edges net) = Inr ps" using assms by (simp add: unpack_edges_pairs)
  let ?r = "filter (\<lambda>ec. snd ec > 1) (Counter ps)"
  have d: "distinct (map fst (Counter ps))"
    unfolding Counter_def by (rule distinct_counter_fold) simp
  have "duplicate_edges net = Inr ?r" using u by (simp add: duplicate_edges_def)
  moreover have "distinct (map fst ?r)" using d by (simp add: distinct_map_filter)
  moreover have "map_of ?r e = (if count_list ps e > 1 then Some (count_list ps e) else None)" for e
    using map_of_filter_values [OF d, where Q = "\<lambda>c. c > 1" and k = e]
    by (auto simp: map_of_Counter count_list_0_iff split: if_splits)
  ultimately show ?thesis by blast
qed

lemma duplicate_edges_pairs_example:
  "duplicate_edges (small_network\<lparr>edges := [[''A'', ''B''], [''B'', ''C''], [''A'', ''B'']]\<rparr>)
     = Inr [((''A'', ''B''), 2)]"
  by (simp add: duplicate_edges_def Counter_def counter_add_def)

text \<open>
  C8. The docstring of \<open>duplicate_edges\<close> speaks of edges of any length \<open>n\<close>, and an edge
  is a tuple of two or more node names; the generator unpacks every edge into exactly two
  names. On an edge list that holds the edge \<open>(A, B, C)\<close> twice the property raises
  \<open>ValueError\<close> and returns no mapping.
\<close>

theorem duplicate_edges_three_names:
  "duplicate_edges (small_network\<lparr>edges := [[''A'', ''B'', ''C''], [''A'', ''B'', ''C'']]\<rparr>)
     = Inl (ValueError ''too many values to unpack'')"
  by (simp add: duplicate_edges_def)

section \<open>Construction entry points\<close>

text \<open>
  C6. \<open>from_file\<close> catches the \<open>PywrParserException\<close> of the parser constructor and
  returns it in the error component; \<open>from_json\<close> builds the parser outside any handler.
  With \<open>raise_on_parser_error\<close> false and a constructor that rejects the document,
  \<open>from_json\<close> raises the parser error where \<open>from_file\<close> returns
  \<open>(None, {"network": [exc]}, None)\<close>.
\<close>

theorem from_json_parser_error_escapes:
  "from_json rejecting_env ''{'' False False True = Inl (PywrParserException ''Invalid JSON'')
   \<and> from_file rejecting_env ''net.json'' False False True None
       = Inr (None, Some [(''network'', [PywrParserException ''Invalid JSON''])], None)"
  by (simp add: from_json_def from_file_def rejecting_env_def)

end
